theory Spec2Isabelle
  imports Complex_Main "HOL-Library.Product_Lexorder" "HOL-Library.Multiset"
begin

section \<open>Text\<close>

text \<open>
  A Python \<open>str\<close> is modelled as a \<open>string\<close>: a list of 8-bit characters, each read
  as the code point of the same number (U+0000 to U+00FF). This covers the statement
  texts of the program, umlauts included (\<open>CHR 0xE4\<close> is U+00E4). The character
  classes below are Python's classes restricted to this range: the only decimal digits
  are \<open>0\<close> to \<open>9\<close>, and the white space characters are U+0009 to U+000D,
  U+001C to U+0020, U+0085 and U+00A0.
\<close>

definition is_digit :: "char \<Rightarrow> bool" where
  "is_digit c = ((48::nat) \<le> of_char c \<and> of_char c \<le> (57::nat))"

definition is_space :: "char \<Rightarrow> bool" where
  "is_space c = (let n = (of_char c :: nat) in
     (9 \<le> n \<and> n \<le> 13) \<or> (28 \<le> n \<and> n \<le> 32) \<or> n = 133 \<or> n = 160)"

definition digit_val :: "char \<Rightarrow> nat" where
  "digit_val c = of_char c - 48"

text \<open>The number written by a string of decimal digits, most significant digit first.\<close>

definition nat_of_digits :: "string \<Rightarrow> nat" where
  "nat_of_digits ds = foldl (\<lambda>n c. 10 * n + digit_val c) 0 ds"

text \<open>\<open>str.strip()\<close> without argument removes white space at both ends.\<close>

definition py_strip :: "string \<Rightarrow> string" where
  "py_strip s = rev (dropWhile is_space (rev (dropWhile is_space s)))"

text \<open>\<open>float\<close> and \<open>int\<close> also accept white space around a number, but they do not
  count the four separators U+001C to U+001F as white space.\<close>

definition is_number_space :: "char \<Rightarrow> bool" where
  "is_number_space c = (let n = (of_char c :: nat) in
     (9 \<le> n \<and> n \<le> 13) \<or> n = 32 \<or> n = 133 \<or> n = 160)"

definition number_strip :: "string \<Rightarrow> string" where
  "number_strip s = rev (dropWhile is_number_space (rev (dropWhile is_number_space s)))"

text \<open>\<open>str.replace(old, new)\<close> for a one-character \<open>old\<close>.\<close>

definition py_replace :: "char \<Rightarrow> string \<Rightarrow> string \<Rightarrow> string" where
  "py_replace old new s = concat (map (\<lambda>c. if c = old then new else [c]) s)"

text \<open>\<open>str.lower()\<close>: the letters A to Z and U+00C0 to U+00DE (without the
  multiplication sign U+00D7) move 32 code points up.\<close>

definition lower_char :: "char \<Rightarrow> char" where
  "lower_char c = (let n = (of_char c :: nat) in
     if (65 \<le> n \<and> n \<le> 90) \<or> (192 \<le> n \<and> n \<le> 222 \<and> n \<noteq> 215)
     then char_of (n + 32) else c)"

definition py_lower :: "string \<Rightarrow> string" where
  "py_lower s = map lower_char s"

definition endswith :: "string \<Rightarrow> string \<Rightarrow> bool" where
  "endswith s suffix = (length suffix \<le> length s \<and> drop (length s - length suffix) s = suffix)"


datatype py_error =
    ValueError
  | OSError string
  | PdfReadError string
  | AttributeError

section \<open>Regular expressions\<close>

text \<open>
  The patterns of the program are values of \<open>regex\<close>, and \<open>rmatch\<close> is a backtracking
  matcher in the manner of Python's \<open>re\<close>: \<open>rmatch r s cs\<close> lists every way in which
  \<open>r\<close> matches a prefix of \<open>s\<close>, as the rest of the text and the capture groups, in
  the order in which the engine tries them (the left alternative first, a greedy repeat
  the longest first, a lazy repeat the shortest first). The first element is the match
  that \<open>re\<close> reports. An iteration of a repeat that consumes nothing is cut off; no body
  of a repeat in the patterns of this program matches the empty text.
\<close>

datatype cset = CChar char | CRange char char | CDigit | CSpace | CNotSpace

fun in_cset :: "cset \<Rightarrow> char \<Rightarrow> bool" where
  "in_cset (CChar a) c = (c = a)"
| "in_cset (CRange a b) c = ((of_char a :: nat) \<le> of_char c \<and> (of_char c :: nat) \<le> of_char b)"
| "in_cset CDigit c = is_digit c"
| "in_cset CSpace c = is_space c"
| "in_cset CNotSpace c = (\<not> is_space c)"

datatype regex =
    Eps
  | Lit char
  | Dot
  | Cls "cset list"
  | Seq regex regex
  | Alt regex regex
  | Star regex
  | LazyStar regex
  | Grp nat regex

type_synonym caps = "(nat \<times> string) list"

fun rmatch :: "regex \<Rightarrow> string \<Rightarrow> caps \<Rightarrow> (string \<times> caps) list" where
  "rmatch Eps s cs = [(s, cs)]"
| "rmatch (Lit a) s cs = (case s of [] \<Rightarrow> [] | c # t \<Rightarrow> if c = a then [(t, cs)] else [])"
| "rmatch Dot s cs = (case s of [] \<Rightarrow> [] | c # t \<Rightarrow> if c \<noteq> CHR 0x0A then [(t, cs)] else [])"
| "rmatch (Cls ks) s cs =
     (case s of [] \<Rightarrow> [] | c # t \<Rightarrow> if (\<exists>k \<in> set ks. in_cset k c) then [(t, cs)] else [])"
| "rmatch (Seq r1 r2) s cs = concat (map (\<lambda>p. rmatch r2 (fst p) (snd p)) (rmatch r1 s cs))"
| "rmatch (Alt r1 r2) s cs = rmatch r1 s cs @ rmatch r2 s cs"
| "rmatch (Star r) s cs =
     concat (map (\<lambda>p. if length (fst p) < length s then rmatch (Star r) (fst p) (snd p) else [])
                 (rmatch r s cs)) @ [(s, cs)]"
| "rmatch (LazyStar r) s cs =
     (s, cs) # concat (map (\<lambda>p. if length (fst p) < length s
                                  then rmatch (LazyStar r) (fst p) (snd p) else [])
                           (rmatch r s cs))"
| "rmatch (Grp n r) s cs =
     map (\<lambda>p. (fst p, (n, take (length s - length (fst p)) s) # snd p)) (rmatch r s cs)"

fun seqs :: "regex list \<Rightarrow> regex" where
  "seqs [] = Eps"
| "seqs [r] = r"
| "seqs (r # rs) = Seq r (seqs rs)"

fun alts :: "regex list \<Rightarrow> regex" where
  "alts [] = Eps"
| "alts [r] = r"
| "alts (r # rs) = Alt r (alts rs)"

definition lits :: "string \<Rightarrow> regex" where
  "lits w = seqs (map Lit w)"

definition Plus :: "regex \<Rightarrow> regex" where
  "Plus r = Seq r (Star r)"

definition LazyPlus :: "regex \<Rightarrow> regex" where
  "LazyPlus r = Seq r (LazyStar r)"

definition Opt :: "regex \<Rightarrow> regex" where
  "Opt r = Alt r Eps"

definition times :: "nat \<Rightarrow> regex \<Rightarrow> regex" where
  "times n r = seqs (replicate n r)"

text \<open>\<open>pattern.match(s)\<close>: the first match at the start of the text, if any.\<close>

definition re_match :: "regex \<Rightarrow> string \<Rightarrow> (string \<times> caps) option" where
  "re_match r s = (case rmatch r s [] of [] \<Rightarrow> None | p # _ \<Rightarrow> Some p)"


text \<open>A group that took no part in the match reads as the empty text; the last capture
  of a group is the one kept.\<close>

definition group :: "caps \<Rightarrow> nat \<Rightarrow> string" where
  "group cs n = (case map_of cs n of None \<Rightarrow> [] | Some g \<Rightarrow> g)"

type_synonym match6 = "string \<times> string \<times> string \<times> string \<times> string \<times> string"

definition groups6 :: "caps \<Rightarrow> match6" where
  "groups6 cs = (group cs 1, group cs 2, group cs 3, group cs 4, group cs 5, group cs 6)"

text \<open>
  \<open>pattern.findall(text)\<close> for a pattern of six groups: the matches from left to
  right, without overlap, each as the tuple of its groups. After a match the scan goes on
  where the match ended (one character further after an empty match, which no pattern
  of this program has, see \<open>findall_patterns\<close> below).
\<close>

function findall :: "regex \<Rightarrow> string \<Rightarrow> match6 list" where
  "findall r s =
     (case re_match r s of
        None \<Rightarrow> (case s of [] \<Rightarrow> [] | _ # t \<Rightarrow> findall r t)
      | Some (s', cs) \<Rightarrow>
          if length s' < length s then groups6 cs # findall r s'
          else groups6 cs # (case s of [] \<Rightarrow> [] | _ # t \<Rightarrow> findall r t))"
  by pat_completeness auto
termination
  by (relation "measure (\<lambda>(r, s). length s)") auto

declare findall.simps [simp del]

section \<open>Transaction types and patterns\<close>

datatype TransactionType = DIRECT_DEBIT | CARD_TRANSACTION | TRANSFER

definition re_d :: regex where
  "re_d = Cls [CDigit]"

definition re_nl :: regex where
  "re_nl = Lit (CHR 0x0A)"

definition re_crnl :: regex where
  "re_crnl = Seq (Opt (Lit (CHR 0x0D))) re_nl"

text \<open>\<^verbatim>\<open>\d{2}\.\d{2}\.\d{4}\<close>\<close>

definition re_date :: regex where
  "re_date = seqs [times 2 re_d, Lit CHR ''.'', times 2 re_d, Lit CHR ''.'', times 4 re_d]"

text \<open>\<^verbatim>\<open>[A-Z0-9]\<close>\<close>

definition re_upnum :: regex where
  "re_upnum = Cls [CRange CHR ''A'' CHR ''Z'', CRange CHR ''0'' CHR ''9'']"

text \<open>\<^verbatim>\<open>(?:[A-Z0-9]+/\d+ ?)+\<close>\<close>

definition re_codes :: regex where
  "re_codes = Plus (seqs [Plus re_upnum, Lit CHR ''/'', Plus re_d, Opt (Lit CHR '' '')])"

text \<open>\<^verbatim>\<open>-?\d{1,3}(?:\.\d{3})*,\d{2}\<close>\<close>

definition re_amount :: regex where
  "re_amount = seqs [Opt (Lit CHR ''-''), re_d, Opt (Seq re_d (Opt re_d)),
                     Star (Seq (Lit CHR ''.'') (times 3 re_d)), Lit CHR '','', times 2 re_d]"

definition DIRECT_DEBIT_PATTERN :: regex where
  "DIRECT_DEBIT_PATTERN = seqs
    [Grp 1 re_date, re_crnl,
     Grp 2 re_date, lits ''Lastschrift /'', re_crnl, lits ''Belastung'', re_crnl,
     Grp 3 (Plus re_upnum), re_crnl,
     Grp 4 re_codes,
     Grp 5 (Seq (Cls [CRange CHR ''A'' CHR ''Z'', CRange CHR ''a'' CHR ''z''])
                (LazyStar (Cls [CSpace, CNotSpace]))),
     Grp 6 re_amount]"

definition TRANSFER_PATTERN :: regex where
  "TRANSFER_PATTERN = seqs
    [Grp 1 re_date, re_nl,
     Grp 2 re_date, Lit (CHR 0xDC), lits ''bertrag /'', re_nl,
       Lit (CHR 0xDC), lits ''berweisung'', re_nl,
     Grp 3 (Plus re_upnum), re_nl,
     Grp 4 re_codes,
     Grp 5 (Seq (Star (Cls [CSpace])) (LazyPlus (Cls [CSpace, CNotSpace]))),
     re_nl, lits ''Gl'', Lit (CHR 0xE4), lits ''ubiger-ID:'', re_nl,
       lits ''DE'', times 2 re_d, lits ''ZZZ'', times 11 re_d,
     Grp 6 re_amount]"

text \<open>The dictionary \<open>TRANSACTION_PATTERNS\<close>, in the order of its keys.\<close>

definition TRANSACTION_PATTERNS :: "(TransactionType \<times> regex list) list" where
  "TRANSACTION_PATTERNS =
     [(DIRECT_DEBIT, [DIRECT_DEBIT_PATTERN]), (TRANSFER, [TRANSFER_PATTERN])]"

section \<open>Field normalizer\<close>

subsection \<open>Dates\<close>

text \<open>A \<open>datetime.date\<close> is the triple of its year, month and day; the order of dates
  is the lexicographic order of the triples.\<close>

type_synonym date = "nat \<times> nat \<times> nat"

definition is_leap :: "nat \<Rightarrow> bool" where
  "is_leap y = (y mod 4 = 0 \<and> (y mod 100 \<noteq> 0 \<or> y mod 400 = 0))"

definition days_in_month :: "nat \<Rightarrow> nat \<Rightarrow> nat" where
  "days_in_month y m =
     (if m = 2 then (if is_leap y then 29 else 28)
      else if m = 4 \<or> m = 6 \<or> m = 9 \<or> m = 11 then 30 else 31)"

text \<open>The constructor \<open>date(year, month, day)\<close> raises \<open>ValueError\<close> outside the
  calendar (years 1 to 9999).\<close>

definition date_new :: "nat \<Rightarrow> nat \<Rightarrow> nat \<Rightarrow> py_error + date" where
  "date_new y m d =
     (if 1 \<le> y \<and> y \<le> 9999 \<and> 1 \<le> m \<and> m \<le> 12 \<and> 1 \<le> d \<and> d \<le> days_in_month y m
      then Inr (y, m, d) else Inl ValueError)"

text \<open>\<open>int(text)\<close> for the texts that the directives below capture: decimal digits,
  with white space around them allowed.\<close>

definition py_int :: "string \<Rightarrow> py_error + nat" where
  "py_int s = (let t = number_strip s in
     if t \<noteq> [] \<and> (\<forall>c \<in> set t. is_digit c) then Inr (nat_of_digits t) else Inl ValueError)"

text \<open>
  \<open>datetime.strptime(text, "%d.%m.%Y")\<close>. The standard library turns the format into
  the regular expression
  \<^verbatim>\<open>(?P<d>3[0-1]|[1-2]\d|0[1-9]|[1-9]| [1-9])\.(?P<m>1[0-2]|0[1-9]|[1-9])\.(?P<Y>\d\d\d\d)\<close>,
  matches it at the start of the text, raises \<open>ValueError\<close> when there is no match or
  when text remains after the match, and builds the date from the three groups.
\<close>

definition directive_d :: regex where
  "directive_d = alts
     [Seq (Lit CHR ''3'') (Cls [CRange CHR ''0'' CHR ''1'']),
      Seq (Cls [CRange CHR ''1'' CHR ''2'']) re_d,
      Seq (Lit CHR ''0'') (Cls [CRange CHR ''1'' CHR ''9'']),
      Cls [CRange CHR ''1'' CHR ''9''],
      Seq (Lit CHR '' '') (Cls [CRange CHR ''1'' CHR ''9''])]"

definition directive_m :: regex where
  "directive_m = alts
     [Seq (Lit CHR ''1'') (Cls [CRange CHR ''0'' CHR ''2'']),
      Seq (Lit CHR ''0'') (Cls [CRange CHR ''1'' CHR ''9'']),
      Cls [CRange CHR ''1'' CHR ''9'']]"

definition directive_Y :: regex where
  "directive_Y = times 4 re_d"

definition format_regex :: regex where
  "format_regex =
     seqs [Grp 1 directive_d, Lit CHR ''.'', Grp 2 directive_m, Lit CHR ''.'', Grp 3 directive_Y]"

definition strptime :: "string \<Rightarrow> py_error + date" where
  "strptime s =
     (case re_match format_regex s of
        None \<Rightarrow> Inl ValueError
      | Some (rest, cs) \<Rightarrow>
          if rest \<noteq> [] then Inl ValueError
          else (case py_int (group cs 3) of
                  Inl e \<Rightarrow> Inl e
                | Inr y \<Rightarrow>
                    (case py_int (group cs 2) of
                       Inl e \<Rightarrow> Inl e
                     | Inr m \<Rightarrow>
                         (case py_int (group cs 1) of
                            Inl e \<Rightarrow> Inl e
                          | Inr d \<Rightarrow> date_new y m d))))"

text \<open>\<open>parse_date\<close>: the \<open>except ValueError\<close> clause turns that error, and only that
  one, into \<open>None\<close>.\<close>

definition parse_date :: "string \<Rightarrow> py_error + date option" where
  "parse_date date_str =
     (case strptime date_str of
        Inr d \<Rightarrow> Inr (Some d)
      | Inl ValueError \<Rightarrow> Inr None
      | Inl e \<Rightarrow> Inl e)"

subsection \<open>Amounts\<close>

text \<open>
  A Python \<open>float\<close> is a binary64 number: \<open>Finite q\<close> is the number of value \<open>q\<close>
  (with \<open>Finite 0\<close> the positive zero), \<open>NegZero\<close> is the negative zero, and there are
  the two infinities and NaN.
\<close>

datatype pyfloat = Finite rat | NegZero | PosInf | NegInf | NaN

definition py_neg :: "pyfloat \<Rightarrow> pyfloat" where
  "py_neg x =
     (case x of
        Finite q \<Rightarrow> if q = 0 then NegZero else Finite (- q)
      | NegZero \<Rightarrow> Finite 0
      | PosInf \<Rightarrow> NegInf
      | NegInf \<Rightarrow> PosInf
      | NaN \<Rightarrow> NaN)"

text \<open>
  \<open>float(text)\<close> is correctly rounded: it returns the binary64 number nearest to the
  number the text denotes, the one with the even significand when two are equally near.
  A binary64 number with exponent \<open>e\<close> (from -1022 to 1023) is a multiple of
  \<open>2 ^ (e - 52)\<close>, so the numbers in the binade of \<open>q\<close> are the multiples of
  \<open>ulp q\<close>. From \<open>2 ^ 1024 - 2 ^ 970\<close> on, halfway between the largest binary64 number
  and \<open>2 ^ 1024\<close>, the result is infinite.
\<close>

definition round_half_even :: "rat \<Rightarrow> int" where
  "round_half_even x =
     (let f = \<lfloor>x\<rfloor>; r = x - of_int f
      in if r < 1 / 2 then f else if 1 / 2 < r then f + 1 else if even f then f else f + 1)"

text \<open>For \<open>1 \<le> q\<close>: the exponent \<open>e\<close> with \<open>2 ^ e \<le> q < 2 ^ (e + 1)\<close>, at most 1023.
  For \<open>q < 1\<close>: the \<open>e\<close> with \<open>2 ^ (- e) \<le> q < 2 ^ (1 - e)\<close>, at most 1022, below which
  the numbers are subnormal.\<close>

function exponent_up :: "rat \<Rightarrow> nat \<Rightarrow> nat" where
  "exponent_up q e = (if e < 1023 \<and> 2 ^ (e + 1) \<le> q then exponent_up q (e + 1) else e)"
  by pat_completeness auto
termination
  by (relation "measure (\<lambda>(q, e). 1023 - e)") auto

function exponent_down :: "rat \<Rightarrow> nat \<Rightarrow> nat" where
  "exponent_down q e = (if e < 1022 \<and> q * 2 ^ e < 1 then exponent_down q (e + 1) else e)"
  by pat_completeness auto
termination
  by (relation "measure (\<lambda>(q, e). 1022 - e)") auto

declare exponent_up.simps [simp del] exponent_down.simps [simp del]

definition ulp :: "rat \<Rightarrow> rat" where
  "ulp q = (if 1 \<le> q then 2 ^ exponent_up q 0 / 2 ^ 52 else 1 / 2 ^ (exponent_down q 0 + 52))"

text \<open>The binary64 number nearest to a rational number.\<close>

definition binary64 :: "rat \<Rightarrow> pyfloat" where
  "binary64 q =
     (if q < 0 then
        (if 2 ^ 1024 - 2 ^ 970 \<le> - q then NegInf
         else py_neg (Finite (of_int (round_half_even (- q / ulp (- q))) * ulp (- q))))
      else if 2 ^ 1024 - 2 ^ 970 \<le> q then PosInf
      else Finite (of_int (round_half_even (q / ulp q)) * ulp q))"

text \<open>
  The grammar of \<open>float(text)\<close>, after white space is stripped at both ends
  (\<open>number_strip\<close>):
  \<^verbatim>\<open>[sign] (digitpart ["." [digitpart]] | "." digitpart) [("e"|"E") [sign] digitpart]\<close>,
  or \<^verbatim>\<open>[sign] ("inf" | "infinity" | "nan")\<close> in any letter case, where a digitpart is
  a run of digits in which single underscores may stand between two digits. Any other
  text raises \<open>ValueError\<close>.
\<close>

fun digits_us :: "string \<Rightarrow> string \<times> string" where
  "digits_us [] = ([], [])"
| "digits_us (c # s) =
     (if is_digit c then (case digits_us s of (ds, r) \<Rightarrow> (c # ds, r))
      else if c = CHR ''_'' then
        (case s of
           [] \<Rightarrow> ([], c # s)
         | d # s' \<Rightarrow>
             if is_digit d then (case digits_us s' of (ds, r) \<Rightarrow> (d # ds, r))
             else ([], c # s))
      else ([], c # s))"

text \<open>The digits of the longest digitpart at the start of the text, and the rest.\<close>

definition digitpart :: "string \<Rightarrow> string \<times> string" where
  "digitpart s = (case s of [] \<Rightarrow> ([], []) | c # _ \<Rightarrow> if is_digit c then digits_us s else ([], s))"

definition split_sign :: "string \<Rightarrow> bool \<times> string" where
  "split_sign s =
     (case s of
        [] \<Rightarrow> (False, [])
      | c # t \<Rightarrow> if c = CHR ''-'' then (True, t) else if c = CHR ''+'' then (False, t) else (False, s))"

definition parse_exponent :: "string \<Rightarrow> int option" where
  "parse_exponent r =
     (case r of
        [] \<Rightarrow> Some 0
      | c # t \<Rightarrow>
          if c = CHR ''e'' \<or> c = CHR ''E'' then
            (case split_sign t of (neg, u) \<Rightarrow>
               (case digitpart u of (ds, rest) \<Rightarrow>
                  if ds \<noteq> [] \<and> rest = []
                  then Some (if neg then - int (nat_of_digits ds) else int (nat_of_digits ds))
                  else None))
          else None)"

definition scale10 :: "rat \<Rightarrow> int \<Rightarrow> rat" where
  "scale10 q k = (if 0 \<le> k then q * 10 ^ nat k else q / 10 ^ nat (- k))"

definition parse_number :: "string \<Rightarrow> rat option" where
  "parse_number s =
     (case digitpart s of (ip, r1) \<Rightarrow>
        (case (case r1 of [] \<Rightarrow> ([], [])
                        | c # t \<Rightarrow> if c = CHR ''.'' then digitpart t else ([], r1)) of
           (fp, r2) \<Rightarrow>
             if ip = [] \<and> fp = [] then None
             else (case parse_exponent r2 of
                     None \<Rightarrow> None
                   | Some e \<Rightarrow>
                       Some (scale10 (of_nat (nat_of_digits (ip @ fp))) (e - int (length fp))))))"

definition float_of_str :: "string \<Rightarrow> py_error + pyfloat" where
  "float_of_str s =
     (case split_sign (number_strip s) of (neg, body) \<Rightarrow>
        if py_lower body = ''inf'' \<or> py_lower body = ''infinity''
        then Inr (if neg then NegInf else PosInf)
        else if py_lower body = ''nan'' then Inr NaN
        else (case parse_number body of
                None \<Rightarrow> Inl ValueError
              | Some q \<Rightarrow> Inr (if neg then py_neg (binary64 q) else binary64 q)))"

text \<open>\<open>parse_amount\<close>: \<open>float(amount_str.replace(".", "").replace(",", "."))\<close> under
  \<open>except ValueError\<close>.\<close>

definition parse_amount :: "string \<Rightarrow> py_error + pyfloat option" where
  "parse_amount amount_str =
     (case float_of_str (py_replace CHR '','' ''.'' (py_replace CHR ''.'' [] amount_str)) of
        Inr v \<Rightarrow> Inr (Some v)
      | Inl ValueError \<Rightarrow> Inr None
      | Inl e \<Rightarrow> Inl e)"

section \<open>Document extraction\<close>

text \<open>A row of the data frame, with the six columns \<open>Booking Date\<close>, \<open>Value Date\<close>,
  \<open>Transaction ID\<close>, \<open>Code\<close>, \<open>Description\<close> and \<open>Amount\<close>. A data frame is the
  list of its rows; the frame made from an empty list is the empty frame.\<close>

record TransactionRecord =
  Booking_Date :: "date option"
  Value_Date :: "date option"
  Transaction_ID :: string
  Code :: string
  Description :: string
  Amount :: "pyfloat option"

type_synonym DataFrame = "TransactionRecord list"

text \<open>The messages of the logger: the warning
  \<open>Page {page_index + 1} in {basename} has no extractable text.\<close> as
  \<open>WARNING_no_text (page_index + 1) basename\<close>, and the three information messages
  \<open>Parsed {n} transactions from {basename}\<close>, \<open>Total transactions parsed: {n}\<close> and
  \<open>Saved transactions to {path}\<close>.\<close>

datatype log_entry =
    WARNING_no_text nat string
  | INFO_parsed nat string
  | INFO_total nat
  | INFO_saved string

text \<open>
  The parser object: its attributes, the level \<open>log_level\<close> that the constructor gave to
  its logger, what the logger has emitted so far, and the files it has written.
\<close>

record parser =
  source_folder :: string
  transactions :: DataFrame
  log_level :: int
  logged :: "log_entry list"
  written :: "(string \<times> DataFrame) list"

text \<open>
  The levels of the module \<open>logging\<close>. A logger emits a message of level \<open>lvl\<close> when
  \<open>lvl\<close> is not below its effective level, which is its own level unless that is 0
  (\<open>NOTSET\<close>); then it is the level of the root logger, taken here at its default
  \<open>WARNING\<close>. The handler that the constructor adds lets every message pass.
\<close>

definition INFO :: int where
  "INFO = 20"

definition ERROR :: int where
  "ERROR = 40"

definition WARNING :: int where
  "WARNING = 30"

definition getEffectiveLevel :: "int \<Rightarrow> int" where
  "getEffectiveLevel level = (if level \<noteq> 0 then level else WARNING)"

definition isEnabledFor :: "int \<Rightarrow> int \<Rightarrow> bool" where
  "isEnabledFor level lvl = (getEffectiveLevel level \<le> lvl)"

text \<open>\<open>logger.warning(msg)\<close> and \<open>logger.info(msg)\<close> for a logger of level \<open>level\<close>
  that has emitted \<open>lg\<close>.\<close>

definition logger_warning :: "int \<Rightarrow> log_entry \<Rightarrow> log_entry list \<Rightarrow> log_entry list" where
  "logger_warning level msg lg = (if isEnabledFor level WARNING then lg @ [msg] else lg)"

definition logger_info :: "int \<Rightarrow> log_entry \<Rightarrow> log_entry list \<Rightarrow> log_entry list" where
  "logger_info level msg lg = (if isEnabledFor level INFO then lg @ [msg] else lg)"

text \<open>A page is what \<open>page.extract_text()\<close> returns for it: a text or \<open>None\<close>.
  The world outside the program: the names that \<open>os.listdir\<close> gives for a folder, in
  its order, the pages that \<open>PdfReader\<close> finds in a file (either may raise), and the
  absolute path that \<open>Path(p).expanduser().resolve()\<close> gives for a path.\<close>

type_synonym page = "string option"

record env =
  listdir :: "string \<Rightarrow> py_error + string list"
  PdfReader :: "string \<Rightarrow> py_error + page list"
  resolve :: "string \<Rightarrow> string"

text \<open>\<open>os.path.basename\<close> and \<open>os.path.join\<close> of two parts, for POSIX paths.\<close>

definition basename :: "string \<Rightarrow> string" where
  "basename p = rev (takeWhile (\<lambda>c. c \<noteq> CHR ''/'') (rev p))"

definition os_path_join :: "string \<Rightarrow> string \<Rightarrow> string" where
  "os_path_join a b =
     (if b \<noteq> [] \<and> hd b = CHR ''/'' then b
      else if a = [] \<or> last a = CHR ''/'' then a @ b
      else a @ ''/'' @ b)"

text \<open>The default of the parameter \<open>transaction_type\<close> of \<open>parse_pdf\<close> and of
  \<open>parse_pdfs\<close>. An argument is \<open>None\<close> when the caller omits it and \<open>Some v\<close> when
  the caller passes \<open>v\<close>, which may itself be Python's \<open>None\<close>.\<close>

definition transaction_type_of :: "TransactionType option option \<Rightarrow> TransactionType option" where
  "transaction_type_of arg = (case arg of None \<Rightarrow> Some DIRECT_DEBIT | Some v \<Rightarrow> v)"

definition pattern_items :: "TransactionType option \<Rightarrow> (TransactionType \<times> regex) list" where
  "pattern_items transaction_type =
     (case transaction_type of
        Some t \<Rightarrow>
          map (\<lambda>p. (t, p)) (case map_of TRANSACTION_PATTERNS t of None \<Rightarrow> [] | Some ps \<Rightarrow> ps)
      | None \<Rightarrow>
          concat (map (\<lambda>item. map (\<lambda>p. (fst item, p)) (snd item)) TRANSACTION_PATTERNS))"

text \<open>The dictionary that \<open>parse_pdf\<close> appends for one match.\<close>

definition transaction_of_match :: "match6 \<Rightarrow> py_error + TransactionRecord" where
  "transaction_of_match m =
     (case m of (booking_date, value_date, transaction_id, code, description, amount_str) \<Rightarrow>
        (case parse_date booking_date of
           Inl e \<Rightarrow> Inl e
         | Inr bd \<Rightarrow>
             (case parse_date value_date of
                Inl e \<Rightarrow> Inl e
              | Inr vd \<Rightarrow>
                  (case parse_amount amount_str of
                     Inl e \<Rightarrow> Inl e
                   | Inr am \<Rightarrow>
                       Inr \<lparr>Booking_Date = bd, Value_Date = vd,
                            Transaction_ID = transaction_id, Code = code,
                            Description = py_strip description, Amount = am\<rparr>))))"

text \<open>The loop over the matches of one pattern, the loop over the patterns, and the loop
  over the pages, each with \<open>transaction_list\<close> as its accumulator.\<close>

fun match_loop :: "match6 list \<Rightarrow> TransactionRecord list \<Rightarrow> py_error + TransactionRecord list" where
  "match_loop [] transaction_list = Inr transaction_list"
| "match_loop (m # ms) transaction_list =
     (case transaction_of_match m of
        Inl e \<Rightarrow> Inl e
      | Inr r \<Rightarrow> match_loop ms (transaction_list @ [r]))"

fun pattern_loop ::
  "(TransactionType \<times> regex) list \<Rightarrow> string \<Rightarrow> TransactionRecord list
     \<Rightarrow> py_error + TransactionRecord list" where
  "pattern_loop [] text transaction_list = Inr transaction_list"
| "pattern_loop (item # items) text transaction_list =
     (case match_loop (findall (snd item) text) transaction_list of
        Inl e \<Rightarrow> Inl e
      | Inr acc \<Rightarrow> pattern_loop items text acc)"

text \<open>\<open>level\<close> is the level of the logger and \<open>lg\<close> what it has emitted.\<close>

fun page_loop ::
  "int \<Rightarrow> string \<Rightarrow> TransactionType option \<Rightarrow> nat \<Rightarrow> page list
     \<Rightarrow> TransactionRecord list \<Rightarrow> log_entry list
     \<Rightarrow> (py_error + TransactionRecord list) \<times> log_entry list" where
  "page_loop level pdf_path tt page_index [] transaction_list lg = (Inr transaction_list, lg)"
| "page_loop level pdf_path tt page_index (pg # pages) transaction_list lg =
     (case pg of
        None \<Rightarrow>
          page_loop level pdf_path tt (page_index + 1) pages transaction_list
            (logger_warning level (WARNING_no_text (page_index + 1) (basename pdf_path)) lg)
      | Some text \<Rightarrow>
          if text = [] then
            page_loop level pdf_path tt (page_index + 1) pages transaction_list
              (logger_warning level (WARNING_no_text (page_index + 1) (basename pdf_path)) lg)
          else
            (case pattern_loop (pattern_items tt) text transaction_list of
               Inl e \<Rightarrow> (Inl e, lg)
             | Inr acc \<Rightarrow> page_loop level pdf_path tt (page_index + 1) pages acc lg))"

definition parse_pdf ::
  "env \<Rightarrow> string \<Rightarrow> TransactionType option option \<Rightarrow> parser \<Rightarrow> (py_error + DataFrame) \<times> parser" where
  "parse_pdf world pdf_path transaction_type self =
     (case PdfReader world pdf_path of
        Inl e \<Rightarrow> (Inl e, self)
      | Inr pages \<Rightarrow>
          (case page_loop (log_level self) pdf_path (transaction_type_of transaction_type) 0 pages []
                  (logged self) of
             (Inl e, lg) \<Rightarrow> (Inl e, self\<lparr>logged := lg\<rparr>)
           | (Inr df, lg) \<Rightarrow>
               (Inr df,
                self\<lparr>logged := logger_info (log_level self)
                                  (INFO_parsed (length df) (basename pdf_path)) lg\<rparr>)))"

section \<open>Aggregation\<close>

text \<open>
  \<open>DataFrame.sort_values(by="Booking Date")\<close> with its defaults (ascending, missing
  values last, \<open>kind="quicksort"\<close>): pandas takes the rows whose booking date is present,
  asks NumPy's \<open>argsort\<close> for the order of their dates, and puts the rows without a
  booking date behind them, in the order they had. \<open>argsort\<close> is the NumPy routine,
  a parameter here; it returns positions in the list of dates it is given.
\<close>

definition sort_values :: "(date list \<Rightarrow> nat list) \<Rightarrow> DataFrame \<Rightarrow> DataFrame" where
  "sort_values argsort df =
     (let idx = [0..<length df];
          non_nan_idx = filter (\<lambda>i. Booking_Date (df ! i) \<noteq> None) idx;
          nan_idx = filter (\<lambda>i. Booking_Date (df ! i) = None) idx;
          non_nans = map (\<lambda>i. the (Booking_Date (df ! i))) non_nan_idx;
          indexer = map (\<lambda>j. non_nan_idx ! j) (argsort non_nans) @ nan_idx
      in map (\<lambda>i. df ! i) indexer)"

text \<open>The loop of \<open>parse_pdfs\<close> over the names of the source folder, with \<open>all_dfs\<close> as
  its accumulator. An exception of \<open>parse_pdf\<close> is not caught: it ends the loop.\<close>

fun file_loop ::
  "env \<Rightarrow> TransactionType option \<Rightarrow> string list \<Rightarrow> DataFrame list \<Rightarrow> parser
     \<Rightarrow> (py_error + DataFrame list) \<times> parser" where
  "file_loop world tt [] all_dfs self = (Inr all_dfs, self)"
| "file_loop world tt (filename # filenames) all_dfs self =
     (if endswith (py_lower filename) ''.pdf'' then
        (case parse_pdf world (os_path_join (source_folder self) filename) (Some tt) self of
           (Inl e, self') \<Rightarrow> (Inl e, self')
         | (Inr df_pdf, self') \<Rightarrow>
             file_loop world tt filenames
               (if df_pdf \<noteq> [] then all_dfs @ [df_pdf] else all_dfs) self')
      else file_loop world tt filenames all_dfs self)"

definition parse_pdfs ::
  "env \<Rightarrow> (date list \<Rightarrow> nat list) \<Rightarrow> TransactionType option option \<Rightarrow> string option
     \<Rightarrow> parser \<Rightarrow> (py_error + DataFrame) \<times> parser" where
  "parse_pdfs world argsort transaction_type output_csv self =
     (case listdir world (source_folder self) of
        Inl e \<Rightarrow> (Inl e, self)
      | Inr filenames \<Rightarrow>
          (case file_loop world (transaction_type_of transaction_type) filenames [] self of
             (Inl e, self1) \<Rightarrow> (Inl e, self1)
           | (Inr all_dfs, self1) \<Rightarrow>
               (let self2 = self1\<lparr>transactions :=
                      (if all_dfs \<noteq> [] then sort_values argsort (concat all_dfs) else [])\<rparr>;
                    self3 = self2\<lparr>logged := logger_info (log_level self2)
                                              (INFO_total (length (transactions self2))) (logged self2)\<rparr>;
                    self4 = (case output_csv of
                               None \<Rightarrow> self3
                             | Some path \<Rightarrow>
                                 self3\<lparr>written := written self3 @
                                                    [(resolve world path, transactions self3)],
                                       logged := logger_info (log_level self3)
                                                   (INFO_saved (resolve world path)) (logged self3)\<rparr>)
                in (Inr (transactions self4), self4))))"

section \<open>NumPy's quicksort for \<open>argsort\<close>\<close>



















section \<open>Loading and filtering\<close>





text \<open>A row of the frame read from the CSV file; \<open>Description_cell\<close> is \<open>None\<close> for a
  missing value. The other columns are the rest of the record.\<close>

record csv_row =
  Description_cell :: "string option"


section \<open>Sample data\<close>

definition py_lines :: "string list \<Rightarrow> string" where
  "py_lines ls = concat (map (\<lambda>l. l @ [CHR 0x0A]) ls)"

text \<open>\<open>SAMPLE_TEXT\<close> of the test module.\<close>

definition SAMPLE_TEXT :: string where
  "SAMPLE_TEXT = py_lines
    [''04.12.2024'',
     ''04.12.2024Lastschrift /'',
     ''Belastung'',
     ''7L2C1U7N2KRV'',
     ''5LYN/35742D.T.NET Service OHG 402505/129801/EUR 48.40'',
     ''End-to-End-Ref.:'',
     ''150808'',
     ''CORE /Mandatsref.:'',
     ''402505'',
     ''Gl'' @ [CHR 0xE4] @ ''ubiger-ID:'',
     ''DE92ZZZ00000085710-48,40'']"

text \<open>The description that the direct debit pattern captures in \<open>SAMPLE_TEXT\<close>.\<close>

definition SAMPLE_DESCRIPTION :: string where
  "SAMPLE_DESCRIPTION =
     ''D.T.NET Service OHG 402505/129801/EUR 48.40'' @ [CHR 0x0A] @
     ''End-to-End-Ref.:'' @ [CHR 0x0A] @ ''150808'' @ [CHR 0x0A] @
     ''CORE /Mandatsref.:'' @ [CHR 0x0A] @ ''402505'' @ [CHR 0x0A] @
     ''Gl'' @ [CHR 0xE4] @ ''ubiger-ID:'' @ [CHR 0x0A] @ ''DE92ZZZ00000085710''"

text \<open>A direct debit block whose two dates are not in the calendar.\<close>

definition BAD_DATE_TEXT :: string where
  "BAD_DATE_TEXT = py_lines
    [''31.02.2024'',
     ''31.02.2024Lastschrift /'',
     ''Belastung'',
     ''AB12'',
     ''XY/1 Rent-1.200,00'']"

text \<open>A direct debit block of an earlier day.\<close>

definition EARLIER_TEXT :: string where
  "EARLIER_TEXT = py_lines
    [''15.11.2024'',
     ''15.11.2024Lastschrift /'',
     ''Belastung'',
     ''CD34'',
     ''ZZ/7 Insurance-25,50'']"

text \<open>A folder with a statement of three pages, the second without text, a statement of
  one page, and a file that is no PDF.\<close>

definition statement_world :: env where
  "statement_world =
     \<lparr>listdir = (\<lambda>folder. Inr [''notes.txt'', ''statement.pdf'', ''earlier.pdf'']),
      PdfReader = (\<lambda>path.
         if path = ''/data/financial_reports/statement.pdf''
           then Inr [Some SAMPLE_TEXT, None, Some BAD_DATE_TEXT]
         else if path = ''/data/financial_reports/earlier.pdf'' then Inr [Some EARLIER_TEXT]
         else Inl (OSError path)),
      resolve = os_path_join ''/home/user''\<rparr>"

text \<open>A folder with three documents, the second of which cannot be read.\<close>

definition broken_world :: env where
  "broken_world =
     \<lparr>listdir = (\<lambda>folder. Inr [''first.pdf'', ''broken.pdf'', ''statement.pdf'']),
      PdfReader = (\<lambda>path.
         if path = ''/data/financial_reports/first.pdf'' then Inr [Some SAMPLE_TEXT]
         else if path = ''/data/financial_reports/statement.pdf''
           then Inr [Some SAMPLE_TEXT, None, Some BAD_DATE_TEXT]
         else Inl (PdfReadError ''EOF marker not found'')),
      resolve = os_path_join ''/home/user''\<rparr>"

text \<open>A stable \<open>argsort\<close>: the positions of the keys in ascending order of the keys,
  equal keys in the order of their positions.\<close>

definition stable_argsort :: "date list \<Rightarrow> nat list" where
  "stable_argsort ks = map snd (sort_key fst (zip ks [0..<length ks]))"





section \<open>Notions used by the statements\<close>

text \<open>The texts that \<open>strptime\<close> takes for the day, the month and the year: a day is
  \<open>01\<close> to \<open>31\<close>, or \<open>1\<close> to \<open>9\<close> alone or after a space; a month is \<open>01\<close> to
  \<open>12\<close>, or \<open>1\<close> to \<open>9\<close> alone; a year is four digits.\<close>

definition between :: "char \<Rightarrow> char \<Rightarrow> char \<Rightarrow> bool" where
  "between a b c = ((of_char a :: nat) \<le> of_char c \<and> (of_char c :: nat) \<le> of_char b)"

definition day_text :: "string \<Rightarrow> bool" where
  "day_text dt =
     (case dt of
        [a] \<Rightarrow> between CHR ''1'' CHR ''9'' a
      | [a, b] \<Rightarrow>
          (a = CHR ''3'' \<and> between CHR ''0'' CHR ''1'' b) \<or>
          (between CHR ''1'' CHR ''2'' a \<and> is_digit b) \<or>
          (a = CHR ''0'' \<and> between CHR ''1'' CHR ''9'' b) \<or>
          (a = CHR '' '' \<and> between CHR ''1'' CHR ''9'' b)
      | _ \<Rightarrow> False)"

definition month_text :: "string \<Rightarrow> bool" where
  "month_text mt =
     (case mt of
        [a] \<Rightarrow> between CHR ''1'' CHR ''9'' a
      | [a, b] \<Rightarrow>
          (a = CHR ''1'' \<and> between CHR ''0'' CHR ''2'' b) \<or>
          (a = CHR ''0'' \<and> between CHR ''1'' CHR ''9'' b)
      | _ \<Rightarrow> False)"

definition year_text :: "string \<Rightarrow> bool" where
  "year_text yt = (length yt = 4 \<and> list_all is_digit yt)"

text \<open>\<open>k in d\<close> for two texts: \<open>k\<close> is a literal substring of \<open>d\<close>.\<close>

definition starts_with :: "string \<Rightarrow> string \<Rightarrow> bool" where
  "starts_with k s = (take (length k) s = k)"

fun is_substring :: "string \<Rightarrow> string \<Rightarrow> bool" where
  "is_substring k [] = (k = [])"
| "is_substring k (c # t) = (starts_with k (c # t) \<or> is_substring k t)"



text \<open>The matches that the loops of \<open>parse_pdf\<close> visit on one page, in their order:
  none on a page without text, else those of each selected pattern in turn.\<close>

definition page_matches :: "TransactionType option \<Rightarrow> page \<Rightarrow> match6 list" where
  "page_matches tt pg =
     (case pg of
        None \<Rightarrow> []
      | Some text \<Rightarrow>
          if text = [] then []
          else concat (map (\<lambda>item. findall (snd item) text) (pattern_items tt)))"

text \<open>Row \<open>r\<close> records match \<open>m\<close>: the identifier and the code are those of the match,
  the description is the trimmed one, and the two dates and the amount are what the
  normalizers return for the texts of the match, \<open>None\<close> included.\<close>

definition recorded :: "match6 \<Rightarrow> TransactionRecord \<Rightarrow> bool" where
  "recorded m r =
     (case m of (booking_date, value_date, transaction_id, code, description, amount_str) \<Rightarrow>
        parse_date booking_date = Inr (Booking_Date r) \<and>
        parse_date value_date = Inr (Value_Date r) \<and>
        Transaction_ID r = transaction_id \<and>
        Code r = code \<and>
        Description r = py_strip description \<and>
        parse_amount amount_str = Inr (Amount r))"

text \<open>The row for a match, as \<open>transaction_of_match\<close> returns it (the normalizers
  never raise, see \<open>transaction_of_match_row\<close> below).\<close>

definition row_of_match :: "match6 \<Rightarrow> TransactionRecord" where
  "row_of_match m =
     (case m of (booking_date, value_date, transaction_id, code, description, amount_str) \<Rightarrow>
        \<lparr>Booking_Date = (case parse_date booking_date of Inr v \<Rightarrow> v | Inl e \<Rightarrow> None),
         Value_Date = (case parse_date value_date of Inr v \<Rightarrow> v | Inl e \<Rightarrow> None),
         Transaction_ID = transaction_id, Code = code,
         Description = py_strip description,
         Amount = (case parse_amount amount_str of Inr v \<Rightarrow> v | Inl e \<Rightarrow> None)\<rparr>)"

text \<open>The warnings that the page loop sends to the logger for pages numbered from
  \<open>page_index + 1\<close>.\<close>

fun no_text_warnings :: "string \<Rightarrow> nat \<Rightarrow> page list \<Rightarrow> log_entry list" where
  "no_text_warnings pdf_path page_index [] = []"
| "no_text_warnings pdf_path page_index (pg # pages) =
     (if pg = None \<or> pg = Some [] then [WARNING_no_text (page_index + 1) (basename pdf_path)]
      else []) @ no_text_warnings pdf_path (page_index + 1) pages"

text \<open>What one run of \<open>parse_pdf\<close> makes the logger emit.\<close>

definition parse_pdf_log :: "int \<Rightarrow> string \<Rightarrow> page list \<Rightarrow> nat \<Rightarrow> log_entry list" where
  "parse_pdf_log level pdf_path pages n =
     (if isEnabledFor level WARNING then no_text_warnings pdf_path 0 pages else []) @
     (if isEnabledFor level INFO then [INFO_parsed n (basename pdf_path)] else [])"

text \<open>A parser on a folder, made with the default \<open>log_level\<close>, before any run.\<close>

definition new_parser :: parser where
  "new_parser = \<lparr>source_folder = ''/data/financial_reports'', transactions = [],
                  log_level = INFO, logged = [], written = []\<rparr>"


section \<open>The normalizers never raise\<close>

lemma float_of_str_error: "float_of_str s = Inl e \<Longrightarrow> e = ValueError"
  by (auto simp: float_of_str_def split: prod.splits if_splits option.splits)

lemma parse_amount_total: "\<exists>v. parse_amount s = Inr v"
proof (cases "float_of_str (py_replace CHR '','' ''.'' (py_replace CHR ''.'' [] s))")
  case (Inl e)
  then have "e = ValueError" by (rule float_of_str_error)
  with Inl show ?thesis by (simp add: parse_amount_def)
next
  case (Inr v)
  then show ?thesis by (simp add: parse_amount_def)
qed

lemma py_int_error: "py_int s = Inl e \<Longrightarrow> e = ValueError"
  by (auto simp: py_int_def Let_def split: if_splits)

lemma date_new_error: "date_new y m d = Inl e \<Longrightarrow> e = ValueError"
  by (auto simp: date_new_def split: if_splits)

lemma strptime_error: "strptime s = Inl e \<Longrightarrow> e = ValueError"
  by (auto simp: strptime_def split: option.splits prod.splits if_splits sum.splits
      dest: py_int_error date_new_error)

lemma parse_date_total: "\<exists>v. parse_date s = Inr v"
proof (cases "strptime s")
  case (Inl e)
  then have "e = ValueError" by (rule strptime_error)
  with Inl show ?thesis by (simp add: parse_date_def)
next
  case (Inr v)
  then show ?thesis by (simp add: parse_date_def)
qed

lemma pattern_items_DIRECT_DEBIT:
  "pattern_items (Some DIRECT_DEBIT) = [(DIRECT_DEBIT, DIRECT_DEBIT_PATTERN)]"
  by (simp add: pattern_items_def TRANSACTION_PATTERNS_def)


lemma pattern_items_Some_type: "fst ` set (pattern_items (Some t)) \<subseteq> {t}"
  by (auto simp: pattern_items_def)


section \<open>The loops of the document extractor\<close>

lemma transaction_of_match_row: "transaction_of_match m = Inr (row_of_match m)"
proof -
  obtain b v t c d a where m: "m = (b, v, t, c, d, a)" by (cases m) auto
  obtain bd where bd: "parse_date b = Inr bd" using parse_date_total by blast
  obtain vd where vd: "parse_date v = Inr vd" using parse_date_total by blast
  obtain am where am: "parse_amount a = Inr am" using parse_amount_total by blast
  show ?thesis by (simp add: m transaction_of_match_def row_of_match_def bd vd am)
qed

lemma recorded_row_of_match: "recorded m (row_of_match m)"
proof -
  obtain b v t c d a where m: "m = (b, v, t, c, d, a)" by (cases m) auto
  obtain bd where bd: "parse_date b = Inr bd" using parse_date_total by blast
  obtain vd where vd: "parse_date v = Inr vd" using parse_date_total by blast
  obtain am where am: "parse_amount a = Inr am" using parse_amount_total by blast
  show ?thesis by (simp add: m recorded_def row_of_match_def bd vd am)
qed

lemma recorded_unique: "recorded m r \<Longrightarrow> r = row_of_match m"
  by (cases m) (auto simp: recorded_def row_of_match_def)

lemma list_all2_recorded: "list_all2 recorded ms (map row_of_match ms)"
  by (induction ms) (simp_all add: recorded_row_of_match)

lemma match_loop_rows: "match_loop ms acc = Inr (acc @ map row_of_match ms)"
  by (induction ms arbitrary: acc) (simp_all add: transaction_of_match_row)

lemma pattern_loop_rows:
  "pattern_loop items page_text acc =
     Inr (acc @ map row_of_match (concat (map (\<lambda>item. findall (snd item) page_text) items)))"
  by (induction items arbitrary: acc) (simp_all add: match_loop_rows)

lemma page_loop_rows:
  "page_loop level pdf_path tt page_index pages acc lg =
     (Inr (acc @ map row_of_match (concat (map (page_matches tt) pages))),
      lg @ (if isEnabledFor level WARNING then no_text_warnings pdf_path page_index pages else []))"
  by (induction pages arbitrary: page_index acc lg)
     (auto simp: page_matches_def pattern_loop_rows logger_warning_def split: option.splits)

lemma parse_pdf_rows:
  "PdfReader world pdf_path = Inr pages \<Longrightarrow>
   parse_pdf world pdf_path tt self =
     (Inr (map row_of_match (concat (map (page_matches (transaction_type_of tt)) pages))),
      self\<lparr>logged := logged self @ parse_pdf_log (log_level self) pdf_path pages
          (length (concat (map (page_matches (transaction_type_of tt)) pages)))\<rparr>)"
  by (simp add: parse_pdf_def page_loop_rows logger_info_def parse_pdf_log_def)

lemma parse_pdf_error:
  "PdfReader world pdf_path = Inl e \<Longrightarrow> parse_pdf world pdf_path tt self = (Inl e, self)"
  by (simp add: parse_pdf_def)

lemma count_no_text_warnings:
  "count_list (no_text_warnings pdf_path i pages) (WARNING_no_text n b) =
     (if b = basename pdf_path \<and> i < n \<and> n \<le> i + length pages \<and>
         (pages ! (n - i - 1) = None \<or> pages ! (n - i - 1) = Some [])
      then 1 else 0)"
proof (induction pages arbitrary: i)
  case Nil
  then show ?case by simp
next
  case (Cons pg pages)
  show ?case
  proof (cases "n = i + 1")
    case True
    then show ?thesis using Cons.IH [of "i + 1"] by auto
  next
    case False
    then have "(pg # pages) ! (n - i - 1) = pages ! (n - (i + 1) - 1)" if "i < n"
      using that by (cases "n - i - 1") auto
    then show ?thesis using False Cons.IH [of "i + 1"] by auto
  qed
qed


section \<open>Evaluation on the sample texts\<close>

lemmas float_defs = parse_amount_def float_of_str_def py_replace_def number_strip_def split_sign_def
  py_lower_def lower_char_def parse_number_def digitpart_def is_digit_def is_number_space_def
  parse_exponent_def scale10_def nat_of_digits_def digit_val_def

lemma floor_rat_numeral: "\<lfloor>(numeral a :: rat) / numeral b\<rfloor> = numeral a div numeral b"
  using floor_divide_of_int_eq [where ?'a = rat, of "numeral a" "numeral b"] by simp

lemmas binary64_eval = binary64_def ulp_def exponent_up.simps exponent_down.simps
  round_half_even_def floor_rat_numeral py_neg_def Let_def

lemma binary64_minus: "0 < q \<Longrightarrow> binary64 (- q) = py_neg (binary64 q)"
  by (simp add: binary64_def py_neg_def)

lemma findall_SAMPLE_TEXT:
  "findall DIRECT_DEBIT_PATTERN SAMPLE_TEXT =
     [(''04.12.2024'', ''04.12.2024'', ''7L2C1U7N2KRV'', ''5LYN/35742'', SAMPLE_DESCRIPTION, ''-48,40'')]"
  by code_simp

lemma parse_date_sample: "parse_date ''04.12.2024'' = Inr (Some (2024, 12, 4))"
  by code_simp

lemma parse_amount_sample: "parse_amount ''-48,40'' = Inr (Some (binary64 (- 4840 / 100)))"
  by (simp add: float_defs binary64_minus)

lemma strip_SAMPLE_DESCRIPTION: "py_strip SAMPLE_DESCRIPTION = SAMPLE_DESCRIPTION"
  by code_simp

lemma SAMPLE_TEXT_nonempty: "SAMPLE_TEXT \<noteq> []"
  by (simp add: SAMPLE_TEXT_def py_lines_def)

lemma sample_page_records:
  "page_loop level pdf_path (Some DIRECT_DEBIT) 0 [Some SAMPLE_TEXT] [] [] =
     (Inr [\<lparr>Booking_Date = Some (2024, 12, 4), Value_Date = Some (2024, 12, 4),
            Transaction_ID = ''7L2C1U7N2KRV'', Code = ''5LYN/35742'',
            Description = SAMPLE_DESCRIPTION, Amount = Some (binary64 (- 4840 / 100))\<rparr>], [])"
  by (simp add: SAMPLE_TEXT_nonempty pattern_items_DIRECT_DEBIT findall_SAMPLE_TEXT
      transaction_of_match_def parse_date_sample parse_amount_sample strip_SAMPLE_DESCRIPTION)


lemma findall_BAD_DATE_TEXT:
  "findall DIRECT_DEBIT_PATTERN BAD_DATE_TEXT =
     [(''31.02.2024'', ''31.02.2024'', ''AB12'', ''XY/1 '', ''Rent'', ''-1.200,00'')]"
  by code_simp

lemma parse_date_bad: "parse_date ''31.02.2024'' = Inr None"
  by code_simp

lemma BAD_DATE_TEXT_nonempty: "BAD_DATE_TEXT \<noteq> []"
  by (simp add: BAD_DATE_TEXT_def py_lines_def)

lemma statement_pages:
  "PdfReader statement_world ''/data/financial_reports/statement.pdf'' =
     Inr [Some SAMPLE_TEXT, None, Some BAD_DATE_TEXT]"
  by (simp add: statement_world_def)

lemma statement_matches:
  "concat (map (page_matches (Some DIRECT_DEBIT)) [Some SAMPLE_TEXT, None, Some BAD_DATE_TEXT]) =
     [(''04.12.2024'', ''04.12.2024'', ''7L2C1U7N2KRV'', ''5LYN/35742'', SAMPLE_DESCRIPTION, ''-48,40''),
      (''31.02.2024'', ''31.02.2024'', ''AB12'', ''XY/1 '', ''Rent'', ''-1.200,00'')]"
  by (simp add: page_matches_def pattern_items_DIRECT_DEBIT SAMPLE_TEXT_nonempty
      BAD_DATE_TEXT_nonempty findall_SAMPLE_TEXT findall_BAD_DATE_TEXT)

lemma pdf_names:
  "endswith (py_lower ''first.pdf'') ''.pdf''"
  "endswith (py_lower ''broken.pdf'') ''.pdf''"
  "endswith (py_lower ''statement.pdf'') ''.pdf''"
  "\<not> endswith (py_lower ''notes.txt'') ''.pdf''"
  by (simp_all add: endswith_def py_lower_def lower_char_def)

lemma paths:
  "os_path_join ''/data/financial_reports'' ''first.pdf'' = ''/data/financial_reports/first.pdf''"
  "os_path_join ''/data/financial_reports'' ''broken.pdf'' = ''/data/financial_reports/broken.pdf''"
  "os_path_join ''/data/financial_reports'' ''statement.pdf'' = ''/data/financial_reports/statement.pdf''"
  by (simp_all add: os_path_join_def)

lemma basenames:
  "basename ''/data/financial_reports/first.pdf'' = ''first.pdf''"
  "basename ''/data/financial_reports/statement.pdf'' = ''statement.pdf''"
  by (simp_all add: basename_def)

lemma page_matches_SAMPLE_TEXT:
  "page_matches (Some DIRECT_DEBIT) (Some SAMPLE_TEXT) =
     [(''04.12.2024'', ''04.12.2024'', ''7L2C1U7N2KRV'', ''5LYN/35742'', SAMPLE_DESCRIPTION, ''-48,40'')]"
  by (simp add: page_matches_def pattern_items_DIRECT_DEBIT SAMPLE_TEXT_nonempty findall_SAMPLE_TEXT)



lemma INFO_enabled: "isEnabledFor INFO WARNING" "isEnabledFor INFO INFO"
  by (simp_all add: isEnabledFor_def getEffectiveLevel_def INFO_def WARNING_def)

lemma broken_readers:
  "PdfReader broken_world ''/data/financial_reports/first.pdf'' = Inr [Some SAMPLE_TEXT]"
  "PdfReader broken_world ''/data/financial_reports/broken.pdf'' = Inl (PdfReadError ''EOF marker not found'')"
  by (simp_all add: broken_world_def)

section \<open>Every match becomes a row\<close>

text \<open>
  Claim C1. When the document can be read, \<open>parse_pdf\<close> returns a frame with one row
  for every match of every selected pattern on every page, in the order of the matches.
  The row of a match holds its transaction identifier, its code and its trimmed
  description, and for the two dates and the amount what \<open>parse_date\<close> and
  \<open>parse_amount\<close> return, which is \<open>None\<close> when the text does not normalize: a
  failing field empties that field and drops nothing.
\<close>

theorem every_match_is_recorded:
  assumes "PdfReader world pdf_path = Inr pages"
  shows "\<exists>df. fst (parse_pdf world pdf_path tt self) = Inr df \<and>
           list_all2 recorded (concat (map (page_matches (transaction_type_of tt)) pages)) df"
  using assms by (simp add: parse_pdf_rows list_all2_recorded)


theorem every_match_is_recorded_witness:
  "PdfReader statement_world ''/data/financial_reports/statement.pdf'' =
     Inr [Some SAMPLE_TEXT, None, Some BAD_DATE_TEXT]
   \<and> parse_date ''31.02.2024'' = Inr None
   \<and> (\<exists>df. fst (parse_pdf statement_world ''/data/financial_reports/statement.pdf'' None new_parser)
               = Inr df
         \<and> list_all2 recorded
             [(''04.12.2024'', ''04.12.2024'', ''7L2C1U7N2KRV'', ''5LYN/35742'',
               SAMPLE_DESCRIPTION, ''-48,40''),
              (''31.02.2024'', ''31.02.2024'', ''AB12'', ''XY/1 '', ''Rent'', ''-1.200,00'')] df)"
proof -
  have "transaction_type_of None = Some DIRECT_DEBIT"
    by (simp add: transaction_type_of_def)
  with every_match_is_recorded [OF statement_pages, of None new_parser]
  have "\<exists>df. fst (parse_pdf statement_world ''/data/financial_reports/statement.pdf'' None new_parser)
               = Inr df
         \<and> list_all2 recorded
             (concat (map (page_matches (Some DIRECT_DEBIT))
                [Some SAMPLE_TEXT, None, Some BAD_DATE_TEXT])) df"
    by (simp only:)
  then show ?thesis
    unfolding statement_matches
    by (intro conjI statement_pages parse_date_bad)
qed

section \<open>Pages without text\<close>

text \<open>
  Claim C7, as the code has it. Let a document have a page whose text is absent or empty,
  after the pages \<open>before\<close>. The step of the page loop for that page adds no row, and
  it hands one warning, which names the file and the number of the page, to the logger.
  The logger emits it when its level admits warnings, as the default level \<open>INFO\<close>
  does, and emits nothing for the page when the parser was made with a higher level. The
  run of \<open>parse_pdf\<close> raises nothing and returns the same rows as for the document
  without that page; its log has that warning once or not at all, by the level.
\<close>

theorem page_without_text:
  assumes "PdfReader world pdf_path = Inr (before @ pg # after)"
    and "pg = None \<or> pg = Some []"
    and "PdfReader world' pdf_path = Inr (before @ after)"
  shows "\<exists>df lg.
           parse_pdf world pdf_path tt self = (Inr df, self\<lparr>logged := logged self @ lg\<rparr>) \<and>
           fst (parse_pdf world' pdf_path tt self) = Inr df \<and>
           count_list lg (WARNING_no_text (length before + 1) (basename pdf_path)) =
             (if getEffectiveLevel (log_level self) \<le> WARNING then 1 else 0) \<and>
           page_loop (log_level self) pdf_path (transaction_type_of tt) (length before) [pg] acc lg0 =
             (Inr acc,
              if getEffectiveLevel (log_level self) \<le> WARNING
              then lg0 @ [WARNING_no_text (length before + 1) (basename pdf_path)] else lg0)"
proof -
  have empty: "page_matches (transaction_type_of tt) pg = []"
    using assms(2) by (auto simp: page_matches_def)
  have step: "page_loop (log_level self) pdf_path (transaction_type_of tt) (length before) [pg] acc lg0 =
             (Inr acc,
              if getEffectiveLevel (log_level self) \<le> WARNING
              then lg0 @ [WARNING_no_text (length before + 1) (basename pdf_path)] else lg0)"
    using assms(2) by (auto simp: logger_warning_def isEnabledFor_def)
  let ?n = "length (concat (map (page_matches (transaction_type_of tt)) (before @ pg # after)))"
  let ?lg = "parse_pdf_log (log_level self) pdf_path (before @ pg # after) ?n"
  have cnt: "count_list ?lg (WARNING_no_text (length before + 1) (basename pdf_path)) =
             (if getEffectiveLevel (log_level self) \<le> WARNING then 1 else 0)"
    using assms(2)
    by (auto simp: parse_pdf_log_def isEnabledFor_def count_no_text_warnings nth_append)
  have same: "concat (map (page_matches (transaction_type_of tt)) (before @ pg # after))
      = concat (map (page_matches (transaction_type_of tt)) (before @ after))"
    using empty by simp
  show ?thesis
    apply (rule exI [of _ "map row_of_match (concat (map (page_matches (transaction_type_of tt)) (before @ after)))"])
    apply (rule exI [of _ ?lg])
    using cnt step same
    by (simp only: parse_pdf_rows [OF assms(1)] parse_pdf_rows [OF assms(3)] fst_conv simp_thms)
qed

theorem page_without_text_witness:
  "PdfReader statement_world ''/data/financial_reports/statement.pdf'' =
     Inr ([Some SAMPLE_TEXT] @ None # [Some BAD_DATE_TEXT])
   \<and> getEffectiveLevel (log_level new_parser) \<le> WARNING
   \<and> (\<exists>df lg.
         parse_pdf statement_world ''/data/financial_reports/statement.pdf'' None new_parser =
           (Inr df, new_parser\<lparr>logged := logged new_parser @ lg\<rparr>) \<and>
         fst (parse_pdf (statement_world\<lparr>PdfReader := \<lambda>path. Inr [Some SAMPLE_TEXT, Some BAD_DATE_TEXT]\<rparr>)
                ''/data/financial_reports/statement.pdf'' None new_parser) = Inr df \<and>
         count_list lg (WARNING_no_text 2 ''statement.pdf'') = 1 \<and>
         page_loop (log_level new_parser) ''/data/financial_reports/statement.pdf''
             (transaction_type_of None) 1 [None] [] [] =
           (Inr [], [WARNING_no_text 2 ''statement.pdf'']))"
proof -
  have h1: "PdfReader statement_world ''/data/financial_reports/statement.pdf'' =
     Inr ([Some SAMPLE_TEXT] @ None # [Some BAD_DATE_TEXT])"
    by (simp add: statement_pages)
  have h2: "(None :: page) = None \<or> (None :: page) = Some []"
    by simp
  have h3: "PdfReader (statement_world\<lparr>PdfReader := \<lambda>path. Inr [Some SAMPLE_TEXT, Some BAD_DATE_TEXT]\<rparr>)
      ''/data/financial_reports/statement.pdf'' = Inr ([Some SAMPLE_TEXT] @ [Some BAD_DATE_TEXT])"
    by simp
  have lvl: "getEffectiveLevel (log_level new_parser) \<le> WARNING"
    by (simp add: new_parser_def getEffectiveLevel_def INFO_def WARNING_def)
  have two: "length [Some SAMPLE_TEXT] = (1 :: nat)" "1 + 1 = (2 :: nat)"
    by simp_all
  show ?thesis
    using page_without_text [OF h1 h2 h3, of None new_parser "[]" "[]"] h1 lvl
    unfolding two basenames by (simp only: if_True append_Nil simp_thms)
qed

text \<open>
  Claim C7, as stated, fails for a parser made with \<open>log_level=logging.ERROR\<close>: the
  second page of the statement has no text, and the run emits nothing at all, neither in
  the step for that page nor in the whole run.
\<close>

theorem page_without_text_silent:
  "page_loop ERROR ''/data/financial_reports/statement.pdf'' (transaction_type_of None) 1 [None] [] []
     = (Inr [], [])
   \<and> (\<exists>df. parse_pdf statement_world ''/data/financial_reports/statement.pdf'' None
              (new_parser\<lparr>log_level := ERROR\<rparr>) = (Inr df, new_parser\<lparr>log_level := ERROR\<rparr>))
   \<and> logged (new_parser\<lparr>log_level := ERROR\<rparr>) = []"
proof -
  have off: "\<not> isEnabledFor ERROR WARNING" "\<not> isEnabledFor ERROR INFO"
    by (simp_all add: isEnabledFor_def getEffectiveLevel_def ERROR_def WARNING_def INFO_def)
  have "page_loop ERROR ''/data/financial_reports/statement.pdf'' (transaction_type_of None) 1 [None] [] []
      = (Inr [], [])"
    by (simp add: logger_warning_def off)
  moreover have "\<exists>df. parse_pdf statement_world ''/data/financial_reports/statement.pdf'' None
              (new_parser\<lparr>log_level := ERROR\<rparr>) = (Inr df, new_parser\<lparr>log_level := ERROR\<rparr>)"
    by (simp add: parse_pdf_rows [OF statement_pages] parse_pdf_log_def off new_parser_def)
  ultimately show ?thesis by (simp add: new_parser_def)
qed

section \<open>A document that cannot be read\<close>

lemma parse_pdf_reader_only:
  "PdfReader w1 = PdfReader w2 \<Longrightarrow> parse_pdf w1 pdf_path tt self = parse_pdf w2 pdf_path tt self"
  by (simp add: parse_pdf_def)

lemma file_loop_reader_only:
  "PdfReader w1 = PdfReader w2 \<Longrightarrow>
   file_loop w1 tt filenames all_dfs self = file_loop w2 tt filenames all_dfs self"
proof (induction filenames arbitrary: all_dfs self)
  case Nil
  then show ?case by simp
next
  case (Cons f fs)
  have "parse_pdf w1 p (Some tt) self = parse_pdf w2 p (Some tt) self" for p
    using Cons.prems by (rule parse_pdf_reader_only)
  then show ?case using Cons.IH [OF Cons.prems] by (simp split: prod.splits sum.splits)
qed

lemma file_loop_abort:
  assumes "endswith (py_lower bad) ''.pdf''"
    and "PdfReader world (os_path_join folder bad) = Inl e"
  shows "source_folder self = folder \<Longrightarrow>
    \<forall>f \<in> set before. endswith (py_lower f) ''.pdf'' \<longrightarrow>
       (\<exists>pages. PdfReader world (os_path_join folder f) = Inr pages) \<Longrightarrow>
    \<exists>self'. (\<forall>after. file_loop world tt (before @ bad # after) all_dfs self = (Inl e, self')) \<and>
       transactions self' = transactions self \<and> written self' = written self \<and>
       source_folder self' = source_folder self"
proof (induction before arbitrary: all_dfs self)
  case Nil
  then show ?case using assms by (simp add: parse_pdf_error)
next
  case (Cons f fs)
  show ?case
  proof (cases "endswith (py_lower f) ''.pdf''")
    case False
    then show ?thesis using Cons.IH [of self all_dfs] Cons.prems by simp
  next
    case True
    then obtain pages where pages: "PdfReader world (os_path_join folder f) = Inr pages"
      using Cons.prems by auto
    obtain df self1 where p: "parse_pdf world (os_path_join folder f) (Some tt) self = (Inr df, self1)"
      and s1: "source_folder self1 = folder" "transactions self1 = transactions self"
        "written self1 = written self"
      using parse_pdf_rows [OF pages, of "Some tt" self] Cons.prems(1) by simp
    obtain self' where
      "\<forall>after. file_loop world tt (fs @ bad # after) (if df \<noteq> [] then all_dfs @ [df] else all_dfs) self1
          = (Inl e, self')"
      "transactions self' = transactions self1" "written self' = written self1"
      "source_folder self' = source_folder self1"
      using Cons.IH [OF s1(1), of "if df \<noteq> [] then all_dfs @ [df] else all_dfs"] Cons.prems(2)
      by auto
    then show ?thesis using True p s1 Cons.prems(1) by simp
  qed
qed

text \<open>
  Claim C6, as the code has it. \<open>parse_pdfs\<close> does not catch what \<open>PdfReader\<close> raises.
  When the documents before \<open>bad\<close> in the listing can be read and \<open>bad\<close> cannot, the
  run ends with the reader's exception: no data set is returned, the attribute
  \<open>transactions\<close> and the written files stay as they were, and the documents after
  \<open>bad\<close> are not read (the run is the same as for a folder that ends with \<open>bad\<close>).
\<close>

theorem read_error_aborts_run:
  assumes "listdir world (source_folder self) = Inr (before @ bad # after)"
    and "endswith (py_lower bad) ''.pdf''"
    and "PdfReader world (os_path_join (source_folder self) bad) = Inl e"
    and "\<forall>f \<in> set before. endswith (py_lower f) ''.pdf'' \<longrightarrow>
           (\<exists>pages. PdfReader world (os_path_join (source_folder self) f) = Inr pages)"
  shows "\<exists>self'. parse_pdfs world argsort tt output_csv self = (Inl e, self') \<and>
           transactions self' = transactions self \<and> written self' = written self \<and>
           parse_pdfs (world\<lparr>listdir := \<lambda>folder. Inr (before @ [bad])\<rparr>) argsort tt output_csv self
             = (Inl e, self')"
proof -
  obtain self' where
    loop: "\<And>after. file_loop world (transaction_type_of tt) (before @ bad # after) [] self = (Inl e, self')"
    and keep: "transactions self' = transactions self" "written self' = written self"
    using file_loop_abort [OF assms(2) assms(3) refl assms(4), of "transaction_type_of tt" "[]"]
    by blast
  let ?w = "world\<lparr>listdir := \<lambda>folder. Inr (before @ [bad])\<rparr>"
  have "file_loop ?w (transaction_type_of tt) (before @ [bad]) [] self
      = file_loop world (transaction_type_of tt) (before @ [bad]) [] self"
    by (rule file_loop_reader_only) simp
  then have "parse_pdfs ?w argsort tt output_csv self = (Inl e, self')"
    using loop [of "[]"] by (simp add: parse_pdfs_def)
  moreover have "parse_pdfs world argsort tt output_csv self = (Inl e, self')"
    using loop [of after] assms(1) by (simp add: parse_pdfs_def)
  ultimately show ?thesis using keep by blast
qed

theorem read_error_aborts_run_witness:
  "listdir broken_world (source_folder new_parser) =
     Inr ([''first.pdf''] @ ''broken.pdf'' # [''statement.pdf''])
   \<and> PdfReader broken_world (os_path_join (source_folder new_parser) ''broken.pdf'') =
       Inl (PdfReadError ''EOF marker not found'')
   \<and> (\<exists>self'. parse_pdfs broken_world stable_argsort None None new_parser =
                  (Inl (PdfReadError ''EOF marker not found''), self') \<and>
         transactions self' = transactions new_parser \<and> written self' = written new_parser \<and>
         parse_pdfs (broken_world\<lparr>listdir := \<lambda>folder. Inr ([''first.pdf''] @ [''broken.pdf''])\<rparr>)
             stable_argsort None None new_parser =
           (Inl (PdfReadError ''EOF marker not found''), self'))"
proof -
  have sf: "source_folder new_parser = ''/data/financial_reports''"
    by (simp add: new_parser_def)
  have h1: "listdir broken_world (source_folder new_parser) =
     Inr ([''first.pdf''] @ ''broken.pdf'' # [''statement.pdf''])"
    by (simp add: broken_world_def)
  have h2: "endswith (py_lower ''broken.pdf'') ''.pdf''"
    by (rule pdf_names)
  have h3: "PdfReader broken_world (os_path_join (source_folder new_parser) ''broken.pdf'') =
       Inl (PdfReadError ''EOF marker not found'')"
    by (simp add: sf paths broken_readers)
  have h4: "\<forall>f \<in> set [''first.pdf'']. endswith (py_lower f) ''.pdf'' \<longrightarrow>
           (\<exists>pages. PdfReader broken_world (os_path_join (source_folder new_parser) f) = Inr pages)"
    by (simp add: sf paths broken_readers)
  show ?thesis
    by (intro conjI h1 h3 read_error_aborts_run [OF h1 h2 h3 h4])
qed

text \<open>
  Claim C6, as stated, fails: in a folder whose second document cannot be read the run
  returns no data set. It ends with the exception, having logged the first document only;
  the third document is never extracted and nothing records which document failed.
\<close>

theorem read_error_counterexample:
  "parse_pdfs broken_world stable_argsort None None new_parser =
     (Inl (PdfReadError ''EOF marker not found''),
      new_parser\<lparr>logged := [INFO_parsed 1 ''first.pdf'']\<rparr>)"
proof -
  have tt: "transaction_type_of None = Some DIRECT_DEBIT"
    "transaction_type_of (Some (Some DIRECT_DEBIT)) = Some DIRECT_DEBIT"
    by (simp_all add: transaction_type_of_def)
  have l: "listdir broken_world ''/data/financial_reports'' = Inr [''first.pdf'', ''broken.pdf'', ''statement.pdf'']"
    by (simp add: broken_world_def)
  have sf: "source_folder new_parser = ''/data/financial_reports''" "logged new_parser = []"
    "log_level new_parser = INFO"
    by (simp_all add: new_parser_def)
  have p1: "parse_pdf broken_world ''/data/financial_reports/first.pdf'' (Some (Some DIRECT_DEBIT)) new_parser
     = (Inr [row_of_match (''04.12.2024'', ''04.12.2024'', ''7L2C1U7N2KRV'', ''5LYN/35742'', SAMPLE_DESCRIPTION, ''-48,40'')],
        new_parser\<lparr>logged := [INFO_parsed 1 ''first.pdf'']\<rparr>)"
    by (simp add: parse_pdf_rows [OF broken_readers(1)] tt page_matches_SAMPLE_TEXT basenames sf
        SAMPLE_TEXT_nonempty parse_pdf_log_def INFO_enabled)
  show ?thesis
    by (simp add: parse_pdfs_def l sf tt pdf_names paths p1 parse_pdf_error [OF broken_readers(2)])
qed


section \<open>The sort of the aggregator\<close>



































section \<open>The sample page\<close>

text \<open>
  Claim C8. On the page whose text is \<open>SAMPLE_TEXT\<close>, with the default type filter, the
  page loop yields exactly one row: booking date and value date 2024-12-04, transaction
  identifier \<open>7L2C1U7N2KRV\<close>, code \<open>5LYN/35742\<close>, a description that starts with
  \<open>D.T.NET Service\<close>, and the amount -48.40, the float nearest to that decimal number;
  it logs nothing, whatever the level of the logger.
\<close>

theorem sample_page_one_record:
  "\<exists>rest. page_loop level pdf_path (transaction_type_of None) 0 [Some SAMPLE_TEXT] [] [] =
     (Inr [\<lparr>Booking_Date = Some (2024, 12, 4), Value_Date = Some (2024, 12, 4),
            Transaction_ID = ''7L2C1U7N2KRV'', Code = ''5LYN/35742'',
            Description = ''D.T.NET Service'' @ rest, Amount = Some (binary64 (- 4840 / 100))\<rparr>], [])"
proof -
  have "SAMPLE_DESCRIPTION = ''D.T.NET Service'' @ drop 15 SAMPLE_DESCRIPTION"
    by (simp add: SAMPLE_DESCRIPTION_def)
  then show ?thesis
    using sample_page_records [of level pdf_path] by (metis transaction_type_of_def option.simps(4))
qed

theorem sample_page_one_record_witness:
  "(\<exists>rest. page_loop INFO ''statement.pdf'' (transaction_type_of None) 0 [Some SAMPLE_TEXT] [] [] =
     (Inr [\<lparr>Booking_Date = Some (2024, 12, 4), Value_Date = Some (2024, 12, 4),
            Transaction_ID = ''7L2C1U7N2KRV'', Code = ''5LYN/35742'',
            Description = ''D.T.NET Service'' @ rest, Amount = Some (binary64 (- 4840 / 100))\<rparr>], []))
   \<and> binary64 (- 4840 / 100) = Finite (- (6811694436397875 / 2 ^ 47))"
proof -
  have "binary64 (- 4840 / 100) = Finite (- (6811694436397875 / 2 ^ 47))"
    by (simp add: binary64_eval)
  then show ?thesis
    using sample_page_one_record [of INFO "''statement.pdf''"] by blast
qed

section \<open>Amounts in the German format\<close>

lemma is_digit_chars:
  "is_digit c \<Longrightarrow> c \<noteq> CHR ''.'' \<and> c \<noteq> CHR '','' \<and> c \<noteq> CHR ''_'' \<and> c \<noteq> CHR ''-''
     \<and> c \<noteq> CHR ''+'' \<and> \<not> is_number_space c \<and> lower_char c = c \<and> c \<noteq> CHR ''i'' \<and> c \<noteq> CHR ''n''"
  by (auto simp: is_digit_def is_number_space_def lower_char_def Let_def)

lemma py_replace_append: "py_replace a b (s @ t) = py_replace a b s @ py_replace a b t"
  by (simp add: py_replace_def)

lemma py_replace_Cons: "py_replace a b (c # s) = (if c = a then b else [c]) @ py_replace a b s"
  by (simp add: py_replace_def)

lemma py_replace_Nil: "py_replace a b [] = []"
  by (simp add: py_replace_def)

lemma py_replace_digits:
  "list_all is_digit ds \<Longrightarrow> a = CHR ''.'' \<or> a = CHR '','' \<Longrightarrow> py_replace a b ds = ds"
  by (induction ds) (auto simp: py_replace_Nil py_replace_Cons dest: is_digit_chars)

lemma py_replace_groups:
  "py_replace CHR ''.'' [] (concat (map (\<lambda>g. CHR ''.'' # g) gs)) = concat gs"
  if "list_all (\<lambda>g. length g = 3 \<and> list_all is_digit g) gs"
  using that
  by (induction gs) (simp_all add: py_replace_Nil py_replace_Cons py_replace_append py_replace_digits)

lemma digits_us_digits:
  "list_all is_digit ds \<Longrightarrow> digits_us ds = (ds, [])"
  by (induction ds) auto

lemma digits_us_stop:
  "list_all is_digit ds \<Longrightarrow> \<not> is_digit c \<Longrightarrow> c \<noteq> CHR ''_'' \<Longrightarrow>
   digits_us (ds @ c # r) = (ds, c # r)"
  by (induction ds) auto

lemma digitpart_digits: "list_all is_digit ds \<Longrightarrow> digitpart ds = (ds, [])"
  by (cases ds) (simp_all add: digitpart_def digits_us_digits)

lemma digitpart_stop:
  "list_all is_digit ds \<Longrightarrow> ds \<noteq> [] \<Longrightarrow> \<not> is_digit c \<Longrightarrow> c \<noteq> CHR ''_'' \<Longrightarrow>
   digitpart (ds @ c # r) = (ds, c # r)"
  using digits_us_stop [of ds c r] by (cases ds) (simp_all add: digitpart_def)

lemma number_strip_id:
  "s \<noteq> [] \<Longrightarrow> \<not> is_number_space (hd s) \<Longrightarrow> \<not> is_number_space (last s) \<Longrightarrow> number_strip s = s"
proof -
  assume a: "s \<noteq> []" "\<not> is_number_space (hd s)" "\<not> is_number_space (last s)"
  then have "dropWhile is_number_space s = s" by (cases s) simp_all
  moreover have "dropWhile is_number_space (rev s) = rev s"
    using a by (cases "rev s") (simp_all add: last_rev [symmetric] hd_rev)
  ultimately show ?thesis by (simp add: number_strip_def)
qed

lemma parse_number_decimal:
  assumes "list_all is_digit ds" "ds \<noteq> []" "list_all is_digit fr" "fr \<noteq> []"
  shows "parse_number (ds @ CHR ''.'' # fr) =
           Some (of_nat (nat_of_digits (ds @ fr)) / 10 ^ length fr)"
proof -
  have "\<not> is_digit CHR ''.''" by (simp add: is_digit_def)
  then have "digitpart (ds @ CHR ''.'' # fr) = (ds, CHR ''.'' # fr)"
    using assms by (simp add: digitpart_stop)
  then show ?thesis
    using assms by (simp add: parse_number_def digitpart_digits parse_exponent_def scale10_def)
qed

lemma float_of_str_decimal:
  assumes "sg = [] \<or> sg = ''-''" "list_all is_digit ds" "ds \<noteq> []" "list_all is_digit fr" "fr \<noteq> []"
  shows "float_of_str (sg @ ds @ CHR ''.'' # fr) =
           Inr (if sg = [] then binary64 (of_nat (nat_of_digits (ds @ fr)) / 10 ^ length fr)
                else py_neg (binary64 (of_nat (nat_of_digits (ds @ fr)) / 10 ^ length fr)))"
proof -
  let ?body = "ds @ CHR ''.'' # fr"
  obtain d ds' where ds: "ds = d # ds'" "is_digit d" using assms(2,3) by (cases ds) auto
  have lastd: "is_digit (last fr)" using assms(4,5) by (induction fr) (auto split: if_splits)
  have strip: "number_strip (sg @ ?body) = sg @ ?body"
  proof (rule number_strip_id)
    show "sg @ ?body \<noteq> []" by simp
    show "\<not> is_number_space (hd (sg @ ?body))"
      using assms(1) ds is_digit_chars [of d] by (auto simp: is_number_space_def)
    show "\<not> is_number_space (last (sg @ ?body))"
      using assms(5) lastd is_digit_chars [of "last fr"] by simp
  qed
  have sign: "split_sign (sg @ ?body) = (sg \<noteq> [], ?body)"
    using assms(1) ds is_digit_chars [of d] by (auto simp: split_sign_def)
  have low: "py_lower ?body = d # py_lower (ds' @ CHR ''.'' # fr)"
    using ds is_digit_chars [of d] by (simp add: py_lower_def)
  have notword: "py_lower ?body \<noteq> ''inf''" "py_lower ?body \<noteq> ''infinity''" "py_lower ?body \<noteq> ''nan''"
    unfolding low using is_digit_chars [of d] ds(2) by auto
  show ?thesis
    using notword assms
    by (simp add: float_of_str_def strip sign parse_number_decimal)
qed

lemma amount_text_replaced:
  assumes "sg = [] \<or> sg = ''-''" "list_all is_digit g0"
    "list_all (\<lambda>g. length g = 3 \<and> list_all is_digit g) gs" "list_all is_digit fr"
  shows "py_replace CHR '','' ''.'' (py_replace CHR ''.'' []
            (sg @ g0 @ concat (map (\<lambda>g. CHR ''.'' # g) gs) @ CHR '','' # fr))
         = sg @ (g0 @ concat gs) @ CHR ''.'' # fr"
proof -
  have cg: "list_all is_digit (concat gs)"
    using assms(3) by (induction gs) simp_all
  have s1: "py_replace CHR ''.'' [] sg = sg" "py_replace CHR '','' ''.'' sg = sg"
    using assms(1) by (auto simp: py_replace_def)
  have "py_replace CHR ''.'' [] (sg @ g0 @ concat (map (\<lambda>g. CHR ''.'' # g) gs) @ CHR '','' # fr)
      = sg @ g0 @ concat gs @ CHR '','' # fr"
    using assms by (simp add: py_replace_append py_replace_Cons py_replace_digits py_replace_groups s1)
  then show ?thesis
    using assms cg by (simp add: py_replace_append py_replace_Cons py_replace_digits s1)
qed

lemma parse_amount_decimal:
  assumes "sg = [] \<or> sg = ''-''" "g0 \<noteq> []" "list_all is_digit g0"
    "list_all (\<lambda>g. length g = 3 \<and> list_all is_digit g) gs" "length fr = 2" "list_all is_digit fr"
  shows "parse_amount (sg @ g0 @ concat (map (\<lambda>g. CHR ''.'' # g) gs) @ CHR '','' # fr) =
         Inr (Some (if sg = [] then binary64 (of_nat (nat_of_digits (g0 @ concat gs @ fr)) / 100)
                    else py_neg (binary64 (of_nat (nat_of_digits (g0 @ concat gs @ fr)) / 100))))"
proof -
  have cg: "list_all is_digit (g0 @ concat gs)"
    using assms(3,4) by (induction gs) simp_all
  have fr: "fr \<noteq> []" using assms(5) by auto
  have "float_of_str (sg @ (g0 @ concat gs) @ CHR ''.'' # fr) =
         Inr (if sg = [] then binary64 (of_nat (nat_of_digits ((g0 @ concat gs) @ fr)) / 10 ^ length fr)
              else py_neg (binary64 (of_nat (nat_of_digits ((g0 @ concat gs) @ fr)) / 10 ^ length fr)))"
    using assms(1) cg _ assms(6) fr by (rule float_of_str_decimal) (use assms(2) in simp)
  then show ?thesis
    unfolding parse_amount_def amount_text_replaced [OF assms(1) assms(3) assms(4) assms(6)]
    using assms(5) by simp
qed

lemma parse_amount_failure:
  assumes "float_of_str (py_replace CHR '','' ''.'' (py_replace CHR ''.'' [] s)) = Inl e"
  shows "parse_amount s = Inr None"
proof -
  have "e = ValueError" using assms by (rule float_of_str_error)
  then show ?thesis using assms by (simp add: parse_amount_def)
qed

lemma nat_of_digits_append:
  "nat_of_digits (ds @ es) = nat_of_digits ds * 10 ^ length es + nat_of_digits es"
proof -
  let ?f = "\<lambda>n c. 10 * n + digit_val c"
  have gen: "foldl ?f k es = k * 10 ^ length es + foldl ?f 0 es" for k
  proof (induction es arbitrary: k rule: rev_induct)
    case Nil
    then show ?case by simp
  next
    case (snoc c es)
    have "foldl ?f k (es @ [c]) = 10 * foldl ?f k es + digit_val c" by simp
    also have "\<dots> = 10 * (k * 10 ^ length es + foldl ?f 0 es) + digit_val c"
      using snoc [of k] by (simp only:)
    also have "\<dots> = k * 10 ^ length (es @ [c]) + foldl ?f 0 (es @ [c])"
      by (simp add: algebra_simps)
    finally show ?case .
  qed
  show ?thesis unfolding nat_of_digits_def foldl_append by (rule gen)
qed

lemma nat_of_digits_zeros: "nat_of_digits (replicate k CHR ''0'') = 0"
  by (induction k) (simp_all add: nat_of_digits_def digit_val_def)

lemma concat_replicate_zeros: "concat (replicate n ''000'') = replicate (3 * n) CHR ''0''"
  by (induction n) (simp_all add: replicate_add numeral_3_eq_3)

text \<open>
  Claim C4, as the code has it. A text of the form \<^verbatim>\<open>-?\d{1,3}(\.\d{3})*,\d{2}\<close> is an
  optional minus sign \<open>sg\<close>, one to three digits \<open>g0\<close>, groups \<open>gs\<close> of a dot and
  three digits, a comma and two digits \<open>fr\<close>. For such a text \<open>parse_amount\<close> returns
  a float: the binary64 number nearest to the decimal number that the digits denote,
  the last two being hundredths, with the sign of the text. \<open>-48,40\<close> gives the float
  -48.40 and \<open>1.234,56\<close> gives the float 1234.56. Whenever \<open>float\<close> rejects the text
  obtained by the two replacements, \<open>parse_amount\<close> returns \<open>None\<close>; it never raises.
\<close>

theorem parse_amount_valid:
  "((sg = [] \<or> sg = ''-'') \<and> g0 \<noteq> [] \<and> length g0 \<le> 3 \<and> list_all is_digit g0 \<and>
    list_all (\<lambda>g. length g = 3 \<and> list_all is_digit g) gs \<and> length fr = 2 \<and> list_all is_digit fr
    \<longrightarrow> parse_amount (sg @ g0 @ concat (map (\<lambda>g. CHR ''.'' # g) gs) @ CHR '','' # fr) =
          Inr (Some (if sg = [] then binary64 (of_nat (nat_of_digits (g0 @ concat gs @ fr)) / 100)
                     else py_neg (binary64 (of_nat (nat_of_digits (g0 @ concat gs @ fr)) / 100)))))
   \<and> ((\<exists>e. float_of_str (py_replace CHR '','' ''.'' (py_replace CHR ''.'' [] s)) = Inl e)
    \<longrightarrow> parse_amount s = Inr None)
   \<and> (\<exists>v. parse_amount s = Inr v)"
  using parse_amount_decimal [of sg g0 gs fr] parse_amount_failure [of s] parse_amount_total [of s]
  by blast

theorem parse_amount_valid_witness:
  "parse_amount ''-48,40'' = Inr (Some (Finite (- (6811694436397875 / 2 ^ 47))))
   \<and> binary64 (- 4840 / 100) = Finite (- (6811694436397875 / 2 ^ 47))
   \<and> parse_amount ''1.234,56'' = Inr (Some (Finite (2714826150374277 / 2 ^ 41)))
   \<and> binary64 (123456 / 100) = Finite (2714826150374277 / 2 ^ 41)
   \<and> float_of_str (py_replace CHR '','' ''.'' (py_replace CHR ''.'' [] ''12,3x'')) = Inl ValueError
   \<and> parse_amount ''12,3x'' = Inr None"
proof -
  have d: "is_digit CHR ''0''" "is_digit CHR ''1''" "is_digit CHR ''2''" "is_digit CHR ''3''"
    "is_digit CHR ''4''" "is_digit CHR ''5''" "is_digit CHR ''6''" "is_digit CHR ''8''"
    by (simp_all add: is_digit_def)
  have f: "float_of_str (py_replace CHR '','' ''.'' (py_replace CHR ''.'' [] ''12,3x'')) = Inl ValueError"
    by (simp add: float_defs)
  have b1: "binary64 (242 / 5) = Finite (6811694436397875 / 2 ^ 47)"
    and b2: "binary64 (- 4840 / 100) = Finite (- (6811694436397875 / 2 ^ 47))"
    and b3: "binary64 (30864 / 25) = Finite (2714826150374277 / 2 ^ 41)"
    and b4: "binary64 (123456 / 100) = Finite (2714826150374277 / 2 ^ 41)"
    by (simp_all add: binary64_eval)
  have "parse_amount ''-48,40'' = Inr (Some (Finite (- (6811694436397875 / 2 ^ 47))))"
    using parse_amount_valid [of "''-''" "''48''" "[]" "''40''"] d
    by (simp add: nat_of_digits_def digit_val_def b1 py_neg_def)
  moreover have "parse_amount ''1.234,56'' = Inr (Some (Finite (2714826150374277 / 2 ^ 41)))"
    using parse_amount_valid [of "[]" "''1''" "[''234'']" "''56''"] d
    by (simp add: nat_of_digits_def digit_val_def b3)
  moreover have "parse_amount ''12,3x'' = Inr None"
    using parse_amount_valid [of _ _ _ _ "''12,3x''"] f by blast
  ultimately show ?thesis using f b2 b4 by blast
qed

text \<open>
  Claim C4, as stated, fails, because the value returned is a binary64 number and not
  the decimal number. The amount \<open>9.007.199.254.740.993,00\<close> has the form, and
  \<open>parse_amount\<close> returns 9007199254740992 for it, one less than the text denotes. An
  amount of 310 digits before the comma, a one and 309 zeros in groups of three, has the
  form too, and \<open>parse_amount\<close> returns the positive infinity for it.
\<close>

theorem parse_amount_not_decimal:
  "parse_amount ''9.007.199.254.740.993,00'' = Inr (Some (Finite 9007199254740992))
   \<and> parse_amount (''1'' @ concat (map (\<lambda>g. CHR ''.'' # g) (replicate 103 ''000'')) @ '',00'')
       = Inr (Some PosInf)"
proof -
  have d: "is_digit CHR ''0''" "is_digit CHR ''1''"
    by (simp_all add: is_digit_def)
  have "parse_amount ''9.007.199.254.740.993,00'' = Inr (Some (Finite 9007199254740992))"
    by (simp add: float_defs binary64_eval)
  moreover have "parse_amount (''1'' @ concat (map (\<lambda>g. CHR ''.'' # g) (replicate 103 ''000'')) @ '',00'')
       = Inr (Some PosInf)"
  proof -
    have n: "nat_of_digits (''1'' @ concat (replicate 103 ''000'') @ ''00'') = 10 ^ 311"
    proof -
      have "''00'' = replicate 2 CHR ''0''"
        by (simp add: numeral_2_eq_2)
      then have "''1'' @ concat (replicate 103 ''000'') @ ''00'' = ''1'' @ replicate 311 CHR ''0''"
        unfolding concat_replicate_zeros
        by (simp only: replicate_add [symmetric]) simp
      then show ?thesis
        by (simp only: nat_of_digits_append nat_of_digits_zeros length_replicate)
           (simp add: nat_of_digits_def digit_val_def)
    qed
    have "parse_amount ([] @ ''1'' @ concat (map (\<lambda>g. CHR ''.'' # g) (replicate 103 ''000'')) @ CHR '','' # ''00'')
        = Inr (Some (binary64 (of_nat (nat_of_digits (''1'' @ concat (replicate 103 ''000'') @ ''00'')) / 100)))"
      using parse_amount_decimal [of "[]" "''1''" "replicate 103 ''000''" "''00''"] d
      by (simp add: list_all_iff)
    then show ?thesis
      unfolding n by (simp add: binary64_def)
  qed
  ultimately show ?thesis by blast
qed

section \<open>Dates in the format day.month.year\<close>

text \<open>What the matcher returns, read as a set of matches.\<close>

lemma in_rmatch_Eps: "p \<in> set (rmatch Eps s cs) \<longleftrightarrow> p = (s, cs)"
  by auto

lemma in_rmatch_Lit: "(t, cs') \<in> set (rmatch (Lit a) s cs) \<longleftrightarrow> s = a # t \<and> cs' = cs"
  by (cases s) auto

lemma in_rmatch_Cls:
  "(t, cs') \<in> set (rmatch (Cls ks) s cs) \<longleftrightarrow> (\<exists>c. s = c # t \<and> list_ex (\<lambda>k. in_cset k c) ks) \<and> cs' = cs"
  by (cases s) (auto simp: list_ex_iff)

lemma in_rmatch_Seq:
  "(t, cs') \<in> set (rmatch (Seq r1 r2) s cs) \<longleftrightarrow>
     (\<exists>u cs1. (u, cs1) \<in> set (rmatch r1 s cs) \<and> (t, cs') \<in> set (rmatch r2 u cs1))"
  by force

lemma in_rmatch_Alt:
  "p \<in> set (rmatch (Alt r1 r2) s cs) \<longleftrightarrow> p \<in> set (rmatch r1 s cs) \<or> p \<in> set (rmatch r2 s cs)"
  by auto

lemma in_rmatch_Grp:
  "(t, cs') \<in> set (rmatch (Grp n r) s cs) \<longleftrightarrow>
     (\<exists>cs1. (t, cs1) \<in> set (rmatch r s cs) \<and> cs' = (n, take (length s - length t) s) # cs1)"
  by force

lemmas in_rmatch = in_rmatch_Eps in_rmatch_Lit in_rmatch_Cls in_rmatch_Seq in_rmatch_Alt in_rmatch_Grp

lemma in_directive_d:
  "(t, cs') \<in> set (rmatch directive_d s cs) \<longleftrightarrow> (\<exists>dt. s = dt @ t \<and> day_text dt) \<and> cs' = cs"
proof
  assume "(t, cs') \<in> set (rmatch directive_d s cs)"
  then show "(\<exists>dt. s = dt @ t \<and> day_text dt) \<and> cs' = cs"
    unfolding directive_d_def re_d_def alts.simps in_rmatch
    by (elim disjE exE conjE) (auto simp: day_text_def between_def intro: exI [of _ "[_, _]"] exI [of _ "[_]"])
next
  assume a: "(\<exists>dt. s = dt @ t \<and> day_text dt) \<and> cs' = cs"
  then obtain dt where dt: "s = dt @ t" "day_text dt" "cs' = cs" by blast
  then show "(t, cs') \<in> set (rmatch directive_d s cs)"
    unfolding directive_d_def re_d_def alts.simps in_rmatch
    by (auto simp: day_text_def between_def split: list.splits)
qed

lemma in_directive_m:
  "(t, cs') \<in> set (rmatch directive_m s cs) \<longleftrightarrow> (\<exists>mt. s = mt @ t \<and> month_text mt) \<and> cs' = cs"
proof
  assume "(t, cs') \<in> set (rmatch directive_m s cs)"
  then show "(\<exists>mt. s = mt @ t \<and> month_text mt) \<and> cs' = cs"
    unfolding directive_m_def alts.simps in_rmatch
    by (elim disjE exE conjE) (auto simp: month_text_def between_def intro: exI [of _ "[_, _]"] exI [of _ "[_]"])
next
  assume a: "(\<exists>mt. s = mt @ t \<and> month_text mt) \<and> cs' = cs"
  then obtain mt where "s = mt @ t" "month_text mt" "cs' = cs" by blast
  then show "(t, cs') \<in> set (rmatch directive_m s cs)"
    unfolding directive_m_def alts.simps in_rmatch
    by (auto simp: month_text_def between_def split: list.splits)
qed

lemma directive_Y_unfold: "directive_Y = Seq re_d (Seq re_d (Seq re_d re_d))"
  by (simp add: directive_Y_def times_def numeral_eq_Suc)

lemma in_directive_Y:
  "(t, cs') \<in> set (rmatch directive_Y s cs) \<longleftrightarrow> (\<exists>yt. s = yt @ t \<and> year_text yt) \<and> cs' = cs"
proof
  assume "(t, cs') \<in> set (rmatch directive_Y s cs)"
  then show "(\<exists>yt. s = yt @ t \<and> year_text yt) \<and> cs' = cs"
    unfolding directive_Y_unfold re_d_def in_rmatch
    by (elim disjE exE conjE) (auto simp: year_text_def intro: exI [of _ "[_, _, _, _]"])
next
  assume "(\<exists>yt. s = yt @ t \<and> year_text yt) \<and> cs' = cs"
  then obtain yt where yt: "s = yt @ t" "length yt = 4" "list_all is_digit yt" "cs' = cs"
    by (auto simp: year_text_def)
  from yt(2) obtain a b c d where "yt = [a, b, c, d]"
    by (auto simp: length_Suc_conv numeral_eq_Suc)
  then show "(t, cs') \<in> set (rmatch directive_Y s cs)"
    using yt unfolding directive_Y_unfold re_d_def in_rmatch by auto
qed

lemma in_format_regex:
  "(t, cs') \<in> set (rmatch format_regex s cs) \<longleftrightarrow>
     (\<exists>dt mt yt. s = dt @ CHR ''.'' # mt @ CHR ''.'' # yt @ t \<and>
        day_text dt \<and> month_text mt \<and> year_text yt \<and> cs' = (3, yt) # (2, mt) # (1, dt) # cs)"
proof
  assume "(t, cs') \<in> set (rmatch format_regex s cs)"
  then obtain u1 u2 u3 u4 c1 c2 c3 c4 where
      g1: "(u1, c1) \<in> set (rmatch (Grp 1 directive_d) s cs)"
      and l1: "(u2, c2) \<in> set (rmatch (Lit CHR ''.'') u1 c1)"
      and g2: "(u3, c3) \<in> set (rmatch (Grp 2 directive_m) u2 c2)"
      and l2: "(u4, c4) \<in> set (rmatch (Lit CHR ''.'') u3 c3)"
      and g3: "(t, cs') \<in> set (rmatch (Grp 3 directive_Y) u4 c4)"
    unfolding format_regex_def seqs.simps in_rmatch_Seq by blast
  from g1 obtain dt where dt: "s = dt @ u1" "day_text dt" "c1 = (1, dt) # cs"
    unfolding in_rmatch_Grp in_directive_d by auto
  from l1 have u1: "u1 = CHR ''.'' # u2" "c2 = c1" unfolding in_rmatch_Lit by auto
  from g2 obtain mt where mt: "u2 = mt @ u3" "month_text mt" "c3 = (2, mt) # c2"
    unfolding in_rmatch_Grp in_directive_m by auto
  from l2 have u3: "u3 = CHR ''.'' # u4" "c4 = c3" unfolding in_rmatch_Lit by auto
  from g3 obtain yt where yt: "u4 = yt @ t" "year_text yt" "cs' = (3, yt) # c4"
    unfolding in_rmatch_Grp in_directive_Y by auto
  show "\<exists>dt mt yt. s = dt @ CHR ''.'' # mt @ CHR ''.'' # yt @ t \<and>
        day_text dt \<and> month_text mt \<and> year_text yt \<and> cs' = (3, yt) # (2, mt) # (1, dt) # cs"
    using dt u1 mt u3 yt by auto
next
  assume "\<exists>dt mt yt. s = dt @ CHR ''.'' # mt @ CHR ''.'' # yt @ t \<and>
        day_text dt \<and> month_text mt \<and> year_text yt \<and> cs' = (3, yt) # (2, mt) # (1, dt) # cs"
  then obtain dt mt yt where d: "s = dt @ CHR ''.'' # mt @ CHR ''.'' # yt @ t"
      "day_text dt" "month_text mt" "year_text yt" "cs' = (3, yt) # (2, mt) # (1, dt) # cs"
    by blast
  have g1: "(CHR ''.'' # mt @ CHR ''.'' # yt @ t, (1, dt) # cs) \<in> set (rmatch (Grp 1 directive_d) s cs)"
    unfolding in_rmatch_Grp in_directive_d using d(1,2) by auto
  have g2: "(CHR ''.'' # yt @ t, (2, mt) # (1, dt) # cs)
      \<in> set (rmatch (Grp 2 directive_m) (mt @ CHR ''.'' # yt @ t) ((1, dt) # cs))"
    unfolding in_rmatch_Grp in_directive_m using d(3) by auto
  have g3: "(t, (3, yt) # (2, mt) # (1, dt) # cs)
      \<in> set (rmatch (Grp 3 directive_Y) (yt @ t) ((2, mt) # (1, dt) # cs))"
    unfolding in_rmatch_Grp in_directive_Y using d(4) by auto
  show "(t, cs') \<in> set (rmatch format_regex s cs)"
    unfolding format_regex_def seqs.simps in_rmatch_Seq in_rmatch_Lit
    using g1 g2 g3 d(5) by blast
qed

lemma split_at_dot_unique:
  "CHR ''.'' \<notin> set a \<Longrightarrow> CHR ''.'' \<notin> set a' \<Longrightarrow> a @ CHR ''.'' # r = a' @ CHR ''.'' # r' \<Longrightarrow>
   a = a' \<and> r = r'"
proof (induction a arbitrary: a')
  case Nil
  then show ?case by (cases a') auto
next
  case (Cons x xs)
  then show ?case by (cases a') auto
qed

lemma day_text_no_dot: "day_text dt \<Longrightarrow> CHR ''.'' \<notin> set dt"
  by (auto simp: day_text_def between_def is_digit_def split: list.splits)

lemma month_text_no_dot: "month_text mt \<Longrightarrow> CHR ''.'' \<notin> set mt"
  by (auto simp: month_text_def between_def split: list.splits)

lemma format_regex_unique:
  assumes "p \<in> set (rmatch format_regex s cs)" "q \<in> set (rmatch format_regex s cs)"
  shows "p = q"
proof -
  obtain t cs' where p: "p = (t, cs')" by (cases p)
  obtain t' cs'' where q: "q = (t', cs'')" by (cases q)
  obtain dt mt yt where d: "s = dt @ CHR ''.'' # mt @ CHR ''.'' # yt @ t"
      "day_text dt" "month_text mt" "year_text yt" "cs' = (3, yt) # (2, mt) # (1, dt) # cs"
    using assms(1) unfolding p in_format_regex by blast
  obtain dt' mt' yt' where d': "s = dt' @ CHR ''.'' # mt' @ CHR ''.'' # yt' @ t'"
      "day_text dt'" "month_text mt'" "year_text yt'" "cs'' = (3, yt') # (2, mt') # (1, dt') # cs"
    using assms(2) unfolding q in_format_regex by blast
  have eq: "dt @ CHR ''.'' # (mt @ CHR ''.'' # yt @ t) = dt' @ CHR ''.'' # (mt' @ CHR ''.'' # yt' @ t')"
    using d(1) d'(1) by simp
  have 1: "dt = dt'" "mt @ CHR ''.'' # yt @ t = mt' @ CHR ''.'' # yt' @ t'"
    using split_at_dot_unique [OF day_text_no_dot [OF d(2)] day_text_no_dot [OF d'(2)] eq]
    by auto
  have 2: "mt = mt'" "yt @ t = yt' @ t'"
    using split_at_dot_unique [OF month_text_no_dot [OF d(3)] month_text_no_dot [OF d'(3)] 1(2)]
    by auto
  have 3: "yt = yt'" "t = t'"
    using 2(2) d(4) d'(4) by (auto simp: year_text_def)
  show ?thesis using p q d(5) d'(5) 1 2 3 by simp
qed

lemma re_match_format_regex:
  "re_match format_regex s = Some (t, cs') \<longleftrightarrow> (t, cs') \<in> set (rmatch format_regex s [])"
proof (cases "rmatch format_regex s []")
  case Nil
  then show ?thesis by (simp add: re_match_def)
next
  case (Cons p ps)
  then have "q = p" if "q \<in> set (rmatch format_regex s [])" for q
    using format_regex_unique [OF that, of p] by simp
  then show ?thesis using Cons by (auto simp: re_match_def)
qed

lemma py_int_digits: "list_all is_digit ds \<Longrightarrow> ds \<noteq> [] \<Longrightarrow> py_int ds = Inr (nat_of_digits ds)"
proof -
  assume a: "list_all is_digit ds" "ds \<noteq> []"
  have "is_digit (hd ds)" "is_digit (last ds)"
    using a by (induction ds) (auto split: if_splits)
  then have "number_strip ds = ds"
    using a(2) is_digit_chars by (intro number_strip_id) auto
  then show ?thesis using a by (simp add: py_int_def list_all_iff)
qed

lemma number_strip_day_text: "day_text dt \<Longrightarrow> list_all is_digit (number_strip dt) \<and> number_strip dt \<noteq> []"
  by (auto simp: day_text_def between_def number_strip_def is_number_space_def is_digit_def split: list.splits)

lemma py_int_day: "day_text dt \<Longrightarrow> py_int dt = Inr (nat_of_digits (number_strip dt))"
proof -
  assume "day_text dt"
  then have a: "list_all is_digit (number_strip dt)" "number_strip dt \<noteq> []"
    using number_strip_day_text by auto
  then show ?thesis by (simp add: py_int_def list_all_iff)
qed

lemma month_text_digits: "month_text mt \<Longrightarrow> list_all is_digit mt \<and> mt \<noteq> []"
  by (auto simp: month_text_def between_def is_digit_def split: list.splits)

lemma strptime_accepts:
  "strptime s = Inr d \<longleftrightarrow>
     (\<exists>dt mt yt. s = dt @ ''.'' @ mt @ ''.'' @ yt \<and> day_text dt \<and> month_text mt \<and> year_text yt \<and>
        date_new (nat_of_digits yt) (nat_of_digits mt) (nat_of_digits (number_strip dt)) = Inr d)"
proof
  assume a: "strptime s = Inr d"
  then obtain rest cs where m: "re_match format_regex s = Some (rest, cs)"
    by (auto simp: strptime_def split: option.splits)
  with a have rest: "rest = []" by (auto simp: strptime_def split: if_splits)
  obtain dt mt yt where dec: "s = dt @ CHR ''.'' # mt @ CHR ''.'' # yt @ []"
      "day_text dt" "month_text mt" "year_text yt" "cs = [(3, yt), (2, mt), (1, dt)]"
    using m unfolding rest re_match_format_regex in_format_regex by blast
  have g: "group cs 3 = yt" "group cs 2 = mt" "group cs 1 = dt" "group cs (Suc 0) = dt"
    by (simp_all add: dec(5) group_def)
  have "yt \<noteq> []" using dec(4) by (auto simp: year_text_def)
  then have i: "py_int yt = Inr (nat_of_digits yt)" "py_int mt = Inr (nat_of_digits mt)"
      "py_int dt = Inr (nat_of_digits (number_strip dt))"
    using dec(2,3,4) py_int_digits [of yt] py_int_digits [of mt] month_text_digits [of mt] py_int_day [of dt]
    by (auto simp: year_text_def)
  have "date_new (nat_of_digits yt) (nat_of_digits mt) (nat_of_digits (number_strip dt)) = Inr d"
    using a by (simp add: strptime_def m rest g i)
  then show "\<exists>dt mt yt. s = dt @ ''.'' @ mt @ ''.'' @ yt \<and> day_text dt \<and> month_text mt \<and> year_text yt \<and>
        date_new (nat_of_digits yt) (nat_of_digits mt) (nat_of_digits (number_strip dt)) = Inr d"
    using dec by auto
next
  assume "\<exists>dt mt yt. s = dt @ ''.'' @ mt @ ''.'' @ yt \<and> day_text dt \<and> month_text mt \<and> year_text yt \<and>
        date_new (nat_of_digits yt) (nat_of_digits mt) (nat_of_digits (number_strip dt)) = Inr d"
  then obtain dt mt yt where dec: "s = dt @ CHR ''.'' # mt @ CHR ''.'' # yt @ []"
      "day_text dt" "month_text mt" "year_text yt"
      and dn: "date_new (nat_of_digits yt) (nat_of_digits mt) (nat_of_digits (number_strip dt)) = Inr d"
    by auto
  have m: "re_match format_regex s = Some ([], [(3, yt), (2, mt), (1, dt)])"
    unfolding re_match_format_regex in_format_regex using dec by blast
  have "yt \<noteq> []" using dec(4) by (auto simp: year_text_def)
  then have i: "py_int yt = Inr (nat_of_digits yt)" "py_int mt = Inr (nat_of_digits mt)"
      "py_int dt = Inr (nat_of_digits (number_strip dt))"
    using dec(2,3,4) py_int_digits [of yt] py_int_digits [of mt] month_text_digits [of mt] py_int_day [of dt]
    by (auto simp: year_text_def)
  show "strptime s = Inr d"
    by (simp add: strptime_def m group_def i dn)
qed

text \<open>
  Claim C5, as the code has it. \<open>parse_date\<close> never raises. It returns a date exactly
  for the texts \<open>D.M.YYYY\<close> in which \<open>D\<close> is a day text, \<open>M\<close> a month text and
  \<open>YYYY\<close> four digits, and day, month and year are a date of the calendar (years 1 to
  9999); the date is that one. These are the strict texts \<open>DD.MM.YYYY\<close> of the valid
  dates, and also the texts in which the day or the month of one digit has no leading
  zero. For every other text it returns \<open>None\<close>.
\<close>

theorem parse_date_accepts:
  "(\<exists>v. parse_date s = Inr v) \<and>
   (parse_date s = Inr (Some d) \<longleftrightarrow>
     (\<exists>dt mt yt. s = dt @ ''.'' @ mt @ ''.'' @ yt \<and> day_text dt \<and> month_text mt \<and> year_text yt \<and>
        date_new (nat_of_digits yt) (nat_of_digits mt) (nat_of_digits (number_strip dt)) = Inr d)) \<and>
   (parse_date s = Inr None \<longleftrightarrow>
     \<not> (\<exists>dt mt yt d'. s = dt @ ''.'' @ mt @ ''.'' @ yt \<and> day_text dt \<and> month_text mt \<and> year_text yt \<and>
        date_new (nat_of_digits yt) (nat_of_digits mt) (nat_of_digits (number_strip dt)) = Inr d'))"
proof -
  have some: "parse_date s = Inr (Some d) \<longleftrightarrow> strptime s = Inr d" for d
    by (cases "strptime s") (auto simp: parse_date_def dest: strptime_error)
  have none: "parse_date s = Inr None \<longleftrightarrow> \<not> (\<exists>d'. strptime s = Inr d')"
    by (cases "strptime s") (auto simp: parse_date_def dest: strptime_error)
  show ?thesis
    unfolding some none strptime_accepts using parse_date_total [of s] by blast
qed


theorem parse_date_accepts_witness:
  "parse_date ''04.12.2024'' = Inr (Some (2024, 12, 4))
   \<and> parse_date '' 4.1.2024'' = Inr (Some (2024, 1, 4))"
proof -
  have n: "nat_of_digits ''2024'' = 2024" "nat_of_digits ''12'' = 12" "nat_of_digits ''1'' = 1"
    "nat_of_digits (number_strip ''04'') = 4" "nat_of_digits (number_strip '' 4'') = 4"
    by (simp_all add: nat_of_digits_def digit_val_def number_strip_def is_number_space_def)
  have y: "year_text ''2024''"
    by (simp add: year_text_def is_digit_def)
  have d1: "date_new 2024 12 4 = Inr (2024, 12, 4)"
    and d2: "date_new 2024 (Suc 0) 4 = Inr (2024, Suc 0, 4)"
    by (simp_all add: date_new_def days_in_month_def)
  have "\<exists>dt mt yt. ''04.12.2024'' = dt @ ''.'' @ mt @ ''.'' @ yt \<and> day_text dt \<and> month_text mt \<and>
      year_text yt \<and>
      date_new (nat_of_digits yt) (nat_of_digits mt) (nat_of_digits (number_strip dt)) = Inr (2024, 12, 4)"
    by (rule exI [of _ "''04''"], rule exI [of _ "''12''"], rule exI [of _ "''2024''"])
       (simp add: n y d1 day_text_def month_text_def between_def)
  moreover have "\<exists>dt mt yt. '' 4.1.2024'' = dt @ ''.'' @ mt @ ''.'' @ yt \<and> day_text dt \<and> month_text mt \<and>
      year_text yt \<and>
      date_new (nat_of_digits yt) (nat_of_digits mt) (nat_of_digits (number_strip dt)) = Inr (2024, 1, 4)"
    by (rule exI [of _ "'' 4''"], rule exI [of _ "''1''"], rule exI [of _ "''2024''"])
       (simp add: n y d2 day_text_def month_text_def between_def)
  ultimately show ?thesis
    using parse_date_accepts [of "''04.12.2024''" "(2024, 12, 4)"]
      parse_date_accepts [of "'' 4.1.2024''" "(2024, 1, 4)"]
    by blast
qed

text \<open>
  Claim C5, as stated, fails: \<open>4.12.2024\<close> has nine characters, so it is not in the
  format \<open>DD.MM.YYYY\<close>, and \<open>parse_date\<close> returns the fourth of December 2024 for it,
  not \<open>None\<close>.
\<close>

theorem parse_date_short_day:
  "parse_date ''4.12.2024'' = Inr (Some (2024, 12, 4)) \<and> length ''4.12.2024'' = 9"
  by code_simp

section \<open>The patterns consume text\<close>

lemma in_rmatch_Star:
  "p \<in> set (rmatch (Star r) s cs) \<longleftrightarrow>
     p = (s, cs) \<or>
     (\<exists>u c1. (u, c1) \<in> set (rmatch r s cs) \<and> length u < length s \<and> p \<in> set (rmatch (Star r) u c1))"
proof -
  have "set (rmatch (Star r) s cs) =
      (\<Union>q \<in> set (rmatch r s cs). if length (fst q) < length s then set (rmatch (Star r) (fst q) (snd q)) else {})
      \<union> {(s, cs)}"
    by (subst rmatch.simps) (simp del: rmatch.simps cong: if_cong)
  then have "p \<in> set (rmatch (Star r) s cs) \<longleftrightarrow>
      p = (s, cs) \<or>
      (\<exists>q \<in> set (rmatch r s cs). length (fst q) < length s \<and> p \<in> set (rmatch (Star r) (fst q) (snd q)))"
    by (simp only: Un_iff UN_iff singleton_iff) (auto simp del: rmatch.simps split: if_splits)
  also have "(\<exists>q \<in> set (rmatch r s cs). length (fst q) < length s \<and> p \<in> set (rmatch (Star r) (fst q) (snd q)))
      \<longleftrightarrow> (\<exists>u c1. (u, c1) \<in> set (rmatch r s cs) \<and> length u < length s \<and> p \<in> set (rmatch (Star r) u c1))"
    by (simp only: Bex_def split_paired_Ex fst_conv snd_conv)
  finally show ?thesis .
qed

lemma in_rmatch_LazyStar:
  "p \<in> set (rmatch (LazyStar r) s cs) \<longleftrightarrow>
     p = (s, cs) \<or>
     (\<exists>u c1. (u, c1) \<in> set (rmatch r s cs) \<and> length u < length s \<and> p \<in> set (rmatch (LazyStar r) u c1))"
proof -
  have "set (rmatch (LazyStar r) s cs) =
      (\<Union>q \<in> set (rmatch r s cs). if length (fst q) < length s then set (rmatch (LazyStar r) (fst q) (snd q)) else {})
      \<union> {(s, cs)}"
    by (subst rmatch.simps) (simp del: rmatch.simps cong: if_cong)
  then have "p \<in> set (rmatch (LazyStar r) s cs) \<longleftrightarrow>
      p = (s, cs) \<or>
      (\<exists>q \<in> set (rmatch r s cs). length (fst q) < length s \<and> p \<in> set (rmatch (LazyStar r) (fst q) (snd q)))"
    by (simp only: Un_iff UN_iff singleton_iff) (auto simp del: rmatch.simps split: if_splits)
  also have "(\<exists>q \<in> set (rmatch r s cs). length (fst q) < length s \<and> p \<in> set (rmatch (LazyStar r) (fst q) (snd q)))
      \<longleftrightarrow> (\<exists>u c1. (u, c1) \<in> set (rmatch r s cs) \<and> length u < length s \<and> p \<in> set (rmatch (LazyStar r) u c1))"
    by (simp only: Bex_def split_paired_Ex fst_conv snd_conv)
  finally show ?thesis .
qed

lemma rmatch_shorter: "(t, cs') \<in> set (rmatch r s cs) \<Longrightarrow> length t \<le> length s"
proof (induction r s cs arbitrary: t cs' rule: rmatch.induct)
  case (1 s cs)
  then show ?case by simp
next
  case (2 a s cs)
  then show ?case unfolding in_rmatch_Lit by simp
next
  case (3 s cs)
  then show ?case by (cases s) (simp_all split: if_splits)
next
  case (4 ks s cs)
  then show ?case unfolding in_rmatch_Cls by auto
next
  case (5 r1 r2 s cs)
  from 5(3) obtain u c1 where u: "(u, c1) \<in> set (rmatch r1 s cs)" "(t, cs') \<in> set (rmatch r2 u c1)"
    unfolding in_rmatch_Seq by blast
  have "length u \<le> length s" using 5(1) u(1) by blast
  moreover have "length t \<le> length u" using 5(2) [of "(u, c1)"] u by (simp del: rmatch.simps)
  ultimately show ?case by simp
next
  case (6 r1 r2 s cs)
  then show ?case unfolding in_rmatch_Alt by blast
next
  case (7 r s cs)
  from 7(3) consider "(t, cs') = (s, cs)"
    | u c1 where "(u, c1) \<in> set (rmatch r s cs)" "length u < length s"
        "(t, cs') \<in> set (rmatch (Star r) u c1)"
    using in_rmatch_Star [of "(t, cs')" r s cs] by blast
  then show ?case
  proof cases
    case 1
    then show ?thesis by simp
  next
    case 2
    then have "length t \<le> length u" using 7(2) [of "(u, c1)"] by (simp del: rmatch.simps)
    then show ?thesis using 2(2) by simp
  qed
next
  case (8 r s cs)
  from 8(3) consider "(t, cs') = (s, cs)"
    | u c1 where "(u, c1) \<in> set (rmatch r s cs)" "length u < length s"
        "(t, cs') \<in> set (rmatch (LazyStar r) u c1)"
    using in_rmatch_LazyStar [of "(t, cs')" r s cs] by blast
  then show ?case
  proof cases
    case 1
    then show ?thesis by simp
  next
    case 2
    then have "length t \<le> length u" using 8(2) [of "(u, c1)"] by (simp del: rmatch.simps)
    then show ?thesis using 2(2) by simp
  qed
next
  case (9 n r s cs)
  from 9(2) obtain c1 where "(t, c1) \<in> set (rmatch r s cs)"
    unfolding in_rmatch_Grp by blast
  then show ?case using 9(1) by blast
qed

lemma re_date_consumes:
  assumes "(t, cs') \<in> set (rmatch (Seq (Grp n re_date) r) s cs)"
  shows "length t < length s"
proof -
  have unfold: "re_date = Seq (Seq re_d re_d)
      (seqs [Lit CHR ''.'', times 2 re_d, Lit CHR ''.'', times 4 re_d])"
    by (simp add: re_date_def times_def numeral_eq_Suc)
  obtain u c1 where u: "(u, c1) \<in> set (rmatch (Grp n re_date) s cs)" "(t, cs') \<in> set (rmatch r u c1)"
    using assms in_rmatch_Seq [of t cs' "Grp n re_date" r s cs] by blast
  obtain c2 where "(u, c2) \<in> set (rmatch re_date s cs)"
    using u(1) in_rmatch_Grp [of u c1 n re_date s cs] by blast
  then obtain v c3 where v: "(v, c3) \<in> set (rmatch (Seq re_d re_d) s cs)"
      "(u, c2) \<in> set (rmatch (seqs [Lit CHR ''.'', times 2 re_d, Lit CHR ''.'', times 4 re_d]) v c3)"
    unfolding unfold using in_rmatch_Seq [of u c2 "Seq re_d re_d" _ s cs] by blast
  obtain w c4 where w: "(w, c4) \<in> set (rmatch re_d s cs)" "(v, c3) \<in> set (rmatch re_d w c4)"
    using v(1) in_rmatch_Seq [of v c3 re_d re_d s cs] by blast
  have "length w < length s"
    using w(1) unfolding re_d_def in_rmatch_Cls by auto
  moreover have "length v \<le> length w" using w(2) by (rule rmatch_shorter)
  moreover have "length u \<le> length v" using v(2) by (rule rmatch_shorter)
  moreover have "length t \<le> length u" using u(2) by (rule rmatch_shorter)
  ultimately show ?thesis by simp
qed

lemma pattern_consumes:
  assumes "item \<in> set (pattern_items tt)" "(t, cs') \<in> set (rmatch (snd item) s cs)"
  shows "length t < length s"
proof -
  have "snd item = DIRECT_DEBIT_PATTERN \<or> snd item = TRANSFER_PATTERN"
    using assms(1) by (cases tt) (auto simp: pattern_items_def TRANSACTION_PATTERNS_def split: if_splits)
  moreover have "\<exists>r. DIRECT_DEBIT_PATTERN = Seq (Grp 1 re_date) r"
    by (simp add: DIRECT_DEBIT_PATTERN_def)
  moreover have "\<exists>r. TRANSFER_PATTERN = Seq (Grp 1 re_date) r"
    by (simp add: TRANSFER_PATTERN_def)
  ultimately obtain r where "snd item = Seq (Grp 1 re_date) r" by auto
  then show ?thesis using assms(2) re_date_consumes by simp
qed

text \<open>No pattern of the program matches the empty text, so the scan of \<open>findall\<close> always
  goes on where the match ended.\<close>

lemma findall_patterns:
  assumes "item \<in> set (pattern_items tt)"
  shows "findall (snd item) s =
     (case re_match (snd item) s of
        None \<Rightarrow> (case s of [] \<Rightarrow> [] | c # t \<Rightarrow> findall (snd item) t)
      | Some (s', cs) \<Rightarrow> groups6 cs # findall (snd item) s')"
proof (cases "re_match (snd item) s")
  case None
  then show ?thesis by (subst findall.simps) simp
next
  case (Some p)
  obtain s' cs where p: "p = (s', cs)" by (cases p)
  have "(s', cs) \<in> set (rmatch (snd item) s [])"
    using Some p by (auto simp: re_match_def split: list.splits)
  then have "length s' < length s" using assms by (rule pattern_consumes [rotated])
  then show ?thesis using Some p by (subst findall.simps) simp
qed

section \<open>The filter of the loader\<close>

lemma is_substring_iff: "is_substring k d \<longleftrightarrow> (\<exists>a b. d = a @ k @ b)"
proof (induction d)
  case Nil
  then show ?case by auto
next
  case (Cons c t)
  have "starts_with k (c # t) \<longleftrightarrow> (\<exists>b. c # t = k @ b)"
    unfolding starts_with_def by (metis append_eq_conv_conj append_take_drop_id)
  moreover have "(\<exists>a b. c # t = a @ k @ b) \<longleftrightarrow> (\<exists>b. c # t = k @ b) \<or> (\<exists>a b. t = a @ k @ b)"
  proof
    assume "\<exists>a b. c # t = a @ k @ b"
    then obtain a b where ab: "c # t = a @ k @ b" by blast
    show "(\<exists>b. c # t = k @ b) \<or> (\<exists>a b. t = a @ k @ b)"
    proof (cases a)
      case Nil
      then show ?thesis using ab by auto
    next
      case (Cons x a')
      then have "t = a' @ k @ b" using ab by simp
      then show ?thesis by blast
    qed
  next
    assume "(\<exists>b. c # t = k @ b) \<or> (\<exists>a b. t = a @ k @ b)"
    then show "\<exists>a b. c # t = a @ k @ b"
    proof
      assume "\<exists>b. c # t = k @ b"
      then show ?thesis by (metis append_Nil)
    next
      assume "\<exists>a b. t = a @ k @ b"
      then obtain a b where "t = a @ k @ b" by blast
      then have "c # t = (c # a) @ k @ b" by simp
      then show ?thesis by blast
    qed
  qed
  ultimately show ?case using Cons.IH by simp
qed














section \<open>The default of the type filter\<close>



end
